theory Spec2Isabelle
  imports Complex_Main "HOL-Library.Multiset" "HOL-Library.List_Lexorder" "HOL-Library.Char_ord"
begin

section \<open>The alert store (utils/alert\_manager.py)\<close>

text \<open>
  An alert is created as an object of class \<open>Alert\<close> and stored as the dictionary that
  \<open>to_dict\<close> builds from it. Both have the same eight fields, so one record type serves
  for both. The field \<open>id\<close> of the source is \<open>alert_id\<close> here. Strings are compared as
  Python compares them: lexicographically by character code.
\<close>

record alert =
  alert_id :: string
  timestamp :: string
  alert_type :: string
  description :: string
  video_path :: "string option"
  audio_path :: "string option"
  is_false_positive :: bool
  feedback :: string

text \<open>
  \<open>Alert.__init__\<close> reads two values from its environment: \<open>str(uuid.uuid4())\<close> and
  \<open>datetime.now().isoformat()\<close>. They are the first two arguments. The id is the first
  eight characters of the UUID text.
\<close>

definition Alert_init ::
  "string \<Rightarrow> string \<Rightarrow> string \<Rightarrow> string \<Rightarrow> string option \<Rightarrow> string option \<Rightarrow> alert" where
  "Alert_init uuid4 now atype descr vpath apath =
     \<lparr>alert_id = take 8 uuid4, timestamp = now, alert_type = atype, description = descr,
      video_path = vpath, audio_path = apath, is_false_positive = False, feedback = []\<rparr>"

definition to_dict :: "alert \<Rightarrow> alert" where
  "to_dict a =
     \<lparr>alert_id = alert_id a, timestamp = timestamp a, alert_type = alert_type a,
      description = description a, video_path = video_path a, audio_path = audio_path a,
      is_false_positive = is_false_positive a, feedback = feedback a\<rparr>"

text \<open>
  The state of an \<open>AlertManager\<close> together with the part of the file system it touches:
  \<open>alerts\<close> is the list \<open>self.alerts\<close>; \<open>db_file\<close> is what the file at
  \<open>ALERTS_DB_PATH\<close> holds (\<open>Some xs\<close> when it is the JSON text of \<open>xs\<close>, \<open>None\<close> when it
  is a truncated document); \<open>media\<close> is the set of evidence files that exist.
\<close>

record store =
  alerts :: "alert list"
  db_file :: "alert list option"
  media :: "string set"

datatype error = IOError | ValueError

text \<open>
  What the operating system does with one call of \<open>save_alerts\<close>: the write completes,
  or \<open>open(path, 'w')\<close> raises and the file is untouched, or \<open>json.dump\<close> raises after
  \<open>open\<close> has truncated the file.
\<close>

datatype write_outcome = WriteOk | OpenFails | DumpFails

fun save_alerts :: "write_outcome \<Rightarrow> store \<Rightarrow> store \<times> (error + unit)" where
  "save_alerts WriteOk s = (s\<lparr>db_file := Some (alerts s)\<rparr>, Inr ())"
| "save_alerts OpenFails s = (s, Inl IOError)"
| "save_alerts DumpFails s = (s\<lparr>db_file := None\<rparr>, Inl IOError)"

text \<open>The argument of \<open>add_alert\<close> is any Python object; only an \<open>Alert\<close> is accepted.\<close>

datatype add_arg = AlertObj alert | OtherObj

fun add_alert :: "write_outcome \<Rightarrow> store \<Rightarrow> add_arg \<Rightarrow> store \<times> (error + string)" where
  "add_alert w s (AlertObj a) =
     (case save_alerts w (s\<lparr>alerts := alerts s @ [to_dict a]\<rparr>) of
        (s', Inl e) \<Rightarrow> (s', Inl e)
      | (s', Inr u) \<Rightarrow> (s', Inr (alert_id a)))"
| "add_alert w s OtherObj = (s, Inl ValueError)"

text \<open>
  \<open>sorted(xs, key=..., reverse=True)\<close> is a stable sort into descending order: CPython
  reverses the list, sorts it stably into ascending order and reverses the result.
\<close>

definition get_all_alerts :: "store \<Rightarrow> alert list" where
  "get_all_alerts s = rev (sort_key timestamp (rev (alerts s)))"

definition get_alert_by_id :: "store \<Rightarrow> string \<Rightarrow> alert option" where
  "get_alert_by_id s aid = find (\<lambda>a. alert_id a = aid) (alerts s)"

text \<open>
  \<open>mark_as_false_positive\<close> writes into the dictionary that \<open>get_alert_by_id\<close> returned,
  which is the first element of \<open>self.alerts\<close> with that id; \<open>mark_first\<close> is that
  in-place update. An alert dictionary has eight keys, so \<open>if alert:\<close> holds exactly when
  the lookup found one.
\<close>

fun mark_first :: "string \<Rightarrow> string \<Rightarrow> alert list \<Rightarrow> alert list" where
  "mark_first aid fb [] = []"
| "mark_first aid fb (a # as) =
     (if alert_id a = aid then a\<lparr>is_false_positive := True, feedback := fb\<rparr> # as
      else a # mark_first aid fb as)"

definition mark_as_false_positive ::
  "write_outcome \<Rightarrow> store \<Rightarrow> string \<Rightarrow> string \<Rightarrow> store \<times> (error + bool)" where
  "mark_as_false_positive w s aid fb =
     (case get_alert_by_id s aid of
        None \<Rightarrow> (s, Inr False)
      | Some a \<Rightarrow>
          (case save_alerts w (s\<lparr>alerts := mark_first aid fb (alerts s)\<rparr>) of
             (s', Inl e) \<Rightarrow> (s', Inl e)
           | (s', Inr u) \<Rightarrow> (s', Inr True)))"

text \<open>
  \<open>delete_alert\<close> walks \<open>enumerate(self.alerts)\<close> and acts on the first index whose
  alert has the id. For each of the two paths that is neither \<open>None\<close> nor empty and
  names an existing file, \<open>os.remove\<close> is tried; \<open>rm_fails\<close> says for which paths it
  raises, and the exception is caught.
\<close>

fun index_of :: "string \<Rightarrow> alert list \<Rightarrow> nat option" where
  "index_of aid [] = None"
| "index_of aid (a # as) =
     (if alert_id a = aid then Some 0
      else (case index_of aid as of None \<Rightarrow> None | Some i \<Rightarrow> Some (Suc i)))"

fun delete_media :: "(string \<Rightarrow> bool) \<Rightarrow> string option list \<Rightarrow> string set \<Rightarrow> string set" where
  "delete_media rm_fails [] fs = fs"
| "delete_media rm_fails (None # ps) fs = delete_media rm_fails ps fs"
| "delete_media rm_fails (Some p # ps) fs =
     delete_media rm_fails ps
       (if p \<noteq> [] \<and> p \<in> fs then (if rm_fails p then fs else fs - {p}) else fs)"

definition pop :: "nat \<Rightarrow> 'a list \<Rightarrow> 'a list" where
  "pop i xs = take i xs @ drop (Suc i) xs"

definition delete_alert ::
  "write_outcome \<Rightarrow> (string \<Rightarrow> bool) \<Rightarrow> store \<Rightarrow> string \<Rightarrow> store \<times> (error + bool)" where
  "delete_alert w rm_fails s aid =
     (case index_of aid (alerts s) of
        None \<Rightarrow> (s, Inr False)
      | Some i \<Rightarrow>
          (case save_alerts w
                  (s\<lparr>media := delete_media rm_fails
                                [video_path (alerts s ! i), audio_path (alerts s ! i)] (media s),
                     alerts := pop i (alerts s)\<rparr>) of
             (s', Inl e) \<Rightarrow> (s', Inl e)
           | (s', Inr u) \<Rightarrow> (s', Inr True)))"

section \<open>The rolling evidence buffers (utils/video\_processing.py, utils/audio\_processing.py)\<close>

text \<open>
  A \<open>VideoProcessor\<close>: \<open>cap\<close> is \<open>None\<close> while \<open>self.cap is None\<close>, \<open>Some True\<close> for an
  opened capture and \<open>Some False\<close> for a capture object that failed to open (\<open>start\<close>
  assigns \<open>self.cap\<close> before it tests \<open>isOpened\<close>). \<open>max_buffer_size\<close> is the Python
  integer \<open>ALERT_VIDEO_DURATION * fps\<close>.
\<close>

record 'f video_processor =
  cap :: "bool option"
  frame_buffer :: "'f list"
  max_buffer_size :: int

text \<open>Lines 52 to 54 of \<open>read_frame\<close>: append, then \<open>pop(0)\<close> when the list is too long.\<close>

definition push_frame :: "int \<Rightarrow> 'f \<Rightarrow> 'f list \<Rightarrow> 'f list" where
  "push_frame m f buf =
     (let b = buf @ [f] in if int (length b) > m then tl b else b)"

text \<open>
  \<open>read_frame\<close>: \<open>open_ok\<close> says whether the source opens if \<open>start\<close> is called,
  \<open>grab\<close> is the frame \<open>cap.read()\<close> delivers (\<open>None\<close> when \<open>ret\<close> is false) and
  \<open>fit\<close> is the conditional \<open>cv2.resize\<close> to the output size.
\<close>

definition read_body ::
  "('f \<Rightarrow> 'f) \<Rightarrow> 'f option \<Rightarrow> 'f video_processor \<Rightarrow> 'f video_processor \<times> (error + 'f option)" where
  "read_body fit grab v =
     (case (if cap v = Some True then grab else None) of
        None \<Rightarrow> (v, Inr None)
      | Some f \<Rightarrow>
          (v\<lparr>frame_buffer := push_frame (max_buffer_size v) (fit f) (frame_buffer v)\<rparr>,
           Inr (Some (fit f))))"

definition read_frame ::
  "bool \<Rightarrow> ('f \<Rightarrow> 'f) \<Rightarrow> 'f option \<Rightarrow> 'f video_processor \<Rightarrow> 'f video_processor \<times> (error + 'f option)" where
  "read_frame open_ok fit grab v =
     (case cap v of
        None \<Rightarrow>
          (if open_ok then read_body fit grab (v\<lparr>cap := Some True\<rparr>)
           else (v\<lparr>cap := Some False\<rparr>, Inl ValueError))
      | Some c \<Rightarrow> read_body fit grab v)"

text \<open>\<open>os.path.join\<close> of a directory and a file name that does not start with a slash.\<close>

definition path_join :: "string \<Rightarrow> string \<Rightarrow> string" where
  "path_join d n = (if d = [] then n else if last d = CHR ''/'' then d @ n else d @ ''/'' @ n)"

text \<open>
  \<open>save_alert_video\<close>: \<open>video_dir\<close> is \<open>VIDEO_DIR\<close> and \<open>stamp\<close> is the text that
  \<open>time.strftime\<close> returns. The processor is returned as the call leaves it.
\<close>

definition save_alert_video ::
  "string \<Rightarrow> string \<Rightarrow> 'f video_processor \<Rightarrow> string \<Rightarrow> 'f video_processor \<times> string option" where
  "save_alert_video video_dir stamp v aid =
     (if frame_buffer v = [] then (v, None)
      else (v, Some (path_join video_dir (''alert_'' @ aid @ ''_'' @ stamp @ ''.mp4''))))"

text \<open>
  An \<open>AudioProcessor\<close>: the sample buffer, the queue that feeds the transcription thread
  and \<open>max_buffer_size = ALERT_AUDIO_DURATION * sample_rate * channels\<close>.
\<close>

record audio_processor =
  audio_buffer :: "real list"
  queue :: "real list list list"
  a_max_buffer_size :: int

text \<open>Python's \<open>xs[start:]\<close> for an integer \<open>start\<close> of either sign.\<close>

definition py_slice_from :: "int \<Rightarrow> 'a list \<Rightarrow> 'a list" where
  "py_slice_from start xs =
     (let n = int (length xs);
          s = (if start < 0 then max (start + n) 0 else min start n)
      in drop (nat s) xs)"

text \<open>
  \<open>audio_callback\<close>: \<open>indata\<close> is an array of frames by channels; \<open>flatten\<close> is
  \<open>concat\<close>. The buffer is cut with the slice \<open>[-self.max_buffer_size:]\<close>.
\<close>

definition audio_callback :: "real list list \<Rightarrow> audio_processor \<Rightarrow> audio_processor" where
  "audio_callback indata a =
     (let b = audio_buffer a @ concat indata
      in a\<lparr>queue := queue a @ [indata],
           audio_buffer :=
             (if int (length b) > a_max_buffer_size a
              then py_slice_from (- a_max_buffer_size a) b else b)\<rparr>)"

text \<open>\<open>save_alert_audio\<close>: \<open>write_fails\<close> says whether \<open>sf.write\<close> raises.\<close>

definition save_alert_audio ::
  "string \<Rightarrow> string \<Rightarrow> bool \<Rightarrow> audio_processor \<Rightarrow> string
     \<Rightarrow> audio_processor \<times> (error + string option)" where
  "save_alert_audio audio_dir stamp write_fails a aid =
     (if audio_buffer a = [] then (a, Inr None)
      else if 0 < length (audio_buffer a)
      then (if write_fails then (a, Inl IOError)
            else (a, Inr (Some (path_join audio_dir (''alert_'' @ aid @ ''_'' @ stamp @ ''.wav'')))))
      else (a, Inr None))"

section \<open>Floating-point arithmetic\<close>

text \<open>
  Bounding boxes and keypoints reach the code as rows of numpy \<open>float32\<close> arrays, and
  every sum, difference, product, quotient and square root the code takes of them is
  rounded. Which format an operation rounds to is not fixed by the repository: an
  operation on two \<open>float32\<close> values rounds to \<open>float32\<close>; an operation on a numpy
  value and a Python number (\<open>/ 2\<close>, \<open>** 2\<close>, \<open>/ 20\<close>, a division by the result of
  \<open>math.sqrt\<close>), and every later operation on its result, rounds to \<open>float32\<close> under
  NumPy 2 and to \<open>float64\<close> under NumPy 1; \<open>math.sqrt\<close> rounds to \<open>float64\<close>. The three
  roundings are therefore parameters of the model: \<open>r32\<close>, \<open>rmix\<close> and \<open>r64\<close>. A value
  is the real number that the float stands for; infinities and NaN do not occur as
  coordinates.
\<close>

record arith =
  r32 :: "real \<Rightarrow> real"
  rmix :: "real \<Rightarrow> real"
  r64 :: "real \<Rightarrow> real"

text \<open>
  Rounding to the nearest binary floating-point number of precision \<open>p\<close>, ties to
  even, with the exponent range taken as unbounded.
\<close>

definition round_even :: "real \<Rightarrow> int" where
  "round_even x =
     (if x - of_int \<lfloor>x\<rfloor> < 1 / 2 then \<lfloor>x\<rfloor>
      else if x - of_int \<lfloor>x\<rfloor> > 1 / 2 then \<lfloor>x\<rfloor> + 1
      else if even \<lfloor>x\<rfloor> then \<lfloor>x\<rfloor> else \<lfloor>x\<rfloor> + 1)"

definition fl :: "nat \<Rightarrow> real \<Rightarrow> real" where
  "fl p x =
     (if x = 0 then 0
      else of_int (round_even (x / 2 powr of_int (\<lfloor>log 2 \<bar>x\<bar>\<rfloor> - int p + 1)))
           * 2 powr of_int (\<lfloor>log 2 \<bar>x\<bar>\<rfloor> - int p + 1))"

text \<open>The arithmetic under NumPy 2, under NumPy 1, and arithmetic without rounding.\<close>

definition numpy_arith :: arith where
  "numpy_arith = \<lparr>r32 = fl 24, rmix = fl 24, r64 = fl 53\<rparr>"

definition legacy_arith :: arith where
  "legacy_arith = \<lparr>r32 = fl 24, rmix = fl 53, r64 = fl 53\<rparr>"

definition exact_arith :: arith where
  "exact_arith = \<lparr>r32 = (\<lambda>x. x), rmix = (\<lambda>x. x), r64 = (\<lambda>x. x)\<rparr>"

text \<open>
  Two facts of binary rounding that the sample scenes rely on: integers below \<open>2^24\<close> in
  size are not changed, and a value of at least 32 is not rounded below 32.
\<close>

definition exact_on_ints :: "(real \<Rightarrow> real) \<Rightarrow> bool" where
  "exact_on_ints r \<longleftrightarrow> (\<forall>k :: int. \<bar>k\<bar> < 2 ^ 24 \<longrightarrow> r (of_int k) = of_int k)"

definition faithful :: "arith \<Rightarrow> bool" where
  "faithful ar \<longleftrightarrow>
     exact_on_ints (r32 ar) \<and> exact_on_ints (rmix ar) \<and> exact_on_ints (r64 ar) \<and>
     (\<forall>x. 32 \<le> x \<longrightarrow> 32 \<le> r64 ar x)"

section \<open>The object presence tracker (models/yolov8/model.py)\<close>

text \<open>
  One row of \<open>results.boxes.data\<close> with the class name \<open>results.names[int(cls_id)]\<close>
  already looked up.
\<close>

record detection =
  det_x1 :: real
  det_y1 :: real
  det_x2 :: real
  det_y2 :: real
  det_conf :: real
  det_class :: string

text \<open>The dictionary stored for a tracked object; \<open>class\<close> and \<open>size\<close> are renamed.\<close>

record obj_data =
  obj_class :: string
  obj_position :: "real \<times> real"
  obj_size :: real
  last_seen :: real
  box :: "real \<times> real \<times> real \<times> real"

text \<open>
  The key \<open>f"{class_name}_{a}_{b}_{c}"\<close> is kept as the tuple of its four parts. No
  watched class name contains an underscore, so equal texts have equal tuples.
\<close>

type_synonym obj_id = "string \<times> int \<times> int \<times> int"

text \<open>A Python dictionary in insertion order; \<open>dict_set\<close> is \<open>d[k] = v\<close>.\<close>

fun dict_set :: "'k \<Rightarrow> 'v \<Rightarrow> ('k \<times> 'v) list \<Rightarrow> ('k \<times> 'v) list" where
  "dict_set k v [] = [(k, v)]"
| "dict_set k v ((k', v') # d) =
     (if k' = k then (k, v) # d else (k', v') # dict_set k v d)"

record tracker =
  tracked_objects :: "(obj_id \<times> obj_data) list"
  missing_objects :: "obj_data list"

definition watched_classes :: "string list" where
  "watched_classes =
     [''chair'', ''laptop'', ''cell phone'', ''keyboard'', ''mouse'', ''cup'', ''bottle'']"

text \<open>\<open>int(x)\<close> on a float truncates towards zero.\<close>

definition py_int :: "real \<Rightarrow> int" where
  "py_int r = (if 0 \<le> r then \<lfloor>r\<rfloor> else \<lceil>r\<rceil>)"

text \<open>
  \<open>((x1 + x2) / 2, (y1 + y2) / 2)\<close>: the sum is of two \<open>float32\<close> values, the
  division is by a Python integer.
\<close>

definition box_center :: "arith \<Rightarrow> detection \<Rightarrow> real \<times> real" where
  "box_center ar d =
     (rmix ar (r32 ar (det_x1 d + det_x2 d) / 2), rmix ar (r32 ar (det_y1 d + det_y2 d) / 2))"

text \<open>\<open>(x2 - x1) * (y2 - y1)\<close>: three operations on \<open>float32\<close> values.\<close>

definition box_area :: "arith \<Rightarrow> detection \<Rightarrow> real" where
  "box_area ar d = r32 ar (r32 ar (det_x2 d - det_x1 d) * r32 ar (det_y2 d - det_y1 d))"

definition object_id :: "arith \<Rightarrow> detection \<Rightarrow> obj_id" where
  "object_id ar d =
     (det_class d, py_int (rmix ar (fst (box_center ar d) / 20)),
      py_int (rmix ar (snd (box_center ar d) / 20)), py_int (rmix ar (box_area ar d / 500)))"

text \<open>
  The dictionary stored under the key. All readings of \<open>time.time()\<close> within one call
  of \<open>update_object_tracking\<close> are taken to be the same value \<open>now\<close>.
\<close>

definition object_data :: "arith \<Rightarrow> real \<Rightarrow> detection \<Rightarrow> obj_data" where
  "object_data ar now d =
     \<lparr>obj_class = det_class d, obj_position = box_center ar d, obj_size = box_area ar d,
      last_seen = now, box = (det_x1 d, det_y1 d, det_x2 d, det_y2 d)\<rparr>"

text \<open>The loop over the detections that fills \<open>current_objects\<close>.\<close>

fun current_objects ::
  "arith \<Rightarrow> real \<Rightarrow> detection list \<Rightarrow> (obj_id \<times> obj_data) list
     \<Rightarrow> (obj_id \<times> obj_data) list" where
  "current_objects ar now [] cur = cur"
| "current_objects ar now (d # ds) cur =
     current_objects ar now ds
       (if det_class d \<in> set watched_classes
        then dict_set (object_id ar d) (object_data ar now d) cur
        else cur)"

text \<open>The loop over \<open>self.tracked_objects.items()\<close> that collects the missing objects.\<close>

fun find_missing ::
  "real \<Rightarrow> (obj_id \<times> obj_data) list \<Rightarrow> (obj_id \<times> obj_data) list \<Rightarrow> obj_data list" where
  "find_missing now cur [] = []"
| "find_missing now cur ((k, d) # rest) =
     (if map_of cur k = None
      then (if now - last_seen d > 3 then d # find_missing now cur rest
            else find_missing now cur rest)
      else find_missing now cur rest)"

fun join_with :: "string \<Rightarrow> string list \<Rightarrow> string" where
  "join_with sep [] = []"
| "join_with sep [x] = x"
| "join_with sep (x # y # ys) = x @ sep @ join_with sep (y # ys)"

text \<open>
  \<open>update_object_tracking\<close>: \<open>dets\<close> is what \<open>detect_objects\<close> returned for the
  frame and \<open>set_order\<close> is the order in which Python iterates over the set of class
  names, which the language leaves open.
\<close>

definition update_object_tracking ::
  "arith \<Rightarrow> (string set \<Rightarrow> string list) \<Rightarrow> real \<Rightarrow> detection list \<Rightarrow> tracker
     \<Rightarrow> tracker \<times> (bool \<times> string)" where
  "update_object_tracking ar set_order now dets tr =
     (let cur = current_objects ar now dets []
      in if tracked_objects tr = []
         then (\<lparr>tracked_objects = cur, missing_objects = []\<rparr>, (False, []))
         else
           (let missing = find_missing now cur (tracked_objects tr)
            in (\<lparr>tracked_objects = cur, missing_objects = missing\<rparr>,
                if missing \<noteq> []
                then (True, ''Potential theft detected: ''
                            @ join_with '', '' (set_order (set (map obj_class missing)))
                            @ '' missing'')
                else (False, []))))"

text \<open>
  A run of the theft worker: one call per tick, each with its clock reading and its
  detections; the results are collected in order.
\<close>

fun run_ticks ::
  "arith \<Rightarrow> (string set \<Rightarrow> string list) \<Rightarrow> (real \<times> detection list) list \<Rightarrow> tracker
     \<Rightarrow> (bool \<times> string) list" where
  "run_ticks ar set_order [] tr = []"
| "run_ticks ar set_order ((now, dets) # ticks) tr =
     (case update_object_tracking ar set_order now dets tr of
        (tr', r) \<Rightarrow> r # run_ticks ar set_order ticks tr')"

section \<open>The contact heuristic (models/yolov7\_pose/model.py)\<close>

text \<open>
  A keypoint is a \<open>float32\<close> row \<open>(x, y, confidence)\<close>. A person is the array of
  seventeen keypoints that the pose model returns, read by row index; the heuristic
  reads the rows 5 and 6 (shoulders), 9 and 10 (wrists), 11 and 12 (hips).
\<close>

record keypoint =
  kx :: real
  ky :: real
  kconf :: real

type_synonym person = "nat \<Rightarrow> keypoint"

text \<open>\<open>float('inf')\<close> and the finite floats, with \<open>min\<close> and \<open><\<close> on them.\<close>

datatype distance = Infinite | Finite real

fun dmin :: "distance \<Rightarrow> real \<Rightarrow> distance" where
  "dmin Infinite d = Finite d"
| "dmin (Finite m) d = Finite (min m d)"

fun dless :: "distance \<Rightarrow> real \<Rightarrow> bool" where
  "dless Infinite t = False"
| "dless (Finite m) t = (m < t)"

text \<open>
  \<open>math.sqrt((p1[0] - p2[0])**2 + (p1[1] - p2[1])**2)\<close>: the differences are of
  \<open>float32\<close> values, the squares and their sum involve the Python integer 2, and the
  root is taken by \<open>math.sqrt\<close>.
\<close>

definition euclid :: "arith \<Rightarrow> keypoint \<Rightarrow> keypoint \<Rightarrow> real" where
  "euclid ar a b =
     r64 ar (sqrt (rmix ar (rmix ar ((r32 ar (kx a - kx b))\<^sup>2)
                            + rmix ar ((r32 ar (ky a - ky b))\<^sup>2))))"

definition key_points :: "nat list" where
  "key_points = [5, 6, 11, 12]"

fun inner_min :: "arith \<Rightarrow> keypoint \<Rightarrow> person \<Rightarrow> nat list \<Rightarrow> distance \<Rightarrow> distance" where
  "inner_min ar p1 person2 [] m = m"
| "inner_min ar p1 person2 (j # js) m =
     (if kconf (person2 j) < 0.5 then inner_min ar p1 person2 js m
      else inner_min ar p1 person2 js (dmin m (euclid ar p1 (person2 j))))"

fun outer_min :: "arith \<Rightarrow> person \<Rightarrow> person \<Rightarrow> nat list \<Rightarrow> distance \<Rightarrow> distance" where
  "outer_min ar person1 person2 [] m = m"
| "outer_min ar person1 person2 (i # is) m =
     (if kconf (person1 i) < 0.5 then outer_min ar person1 person2 is m
      else outer_min ar person1 person2 is (inner_min ar (person1 i) person2 key_points m))"

definition calculate_minimum_distance :: "arith \<Rightarrow> person \<Rightarrow> person \<Rightarrow> distance" where
  "calculate_minimum_distance ar person1 person2 =
     outer_min ar person1 person2 key_points Infinite"

text \<open>
  The midpoints \<open>(a + b) / 2\<close>, the direction vectors, their norms by \<open>math.sqrt\<close>,
  the division of each component by the norm and the dot product of
  \<open>_are_facing_each_other\<close>.
\<close>

definition shoulders_mid :: "arith \<Rightarrow> person \<Rightarrow> real \<times> real" where
  "shoulders_mid ar p =
     (rmix ar (r32 ar (kx (p 5) + kx (p 6)) / 2), rmix ar (r32 ar (ky (p 5) + ky (p 6)) / 2))"

definition hips_mid :: "arith \<Rightarrow> person \<Rightarrow> real \<times> real" where
  "hips_mid ar p =
     (rmix ar (r32 ar (kx (p 11) + kx (p 12)) / 2), rmix ar (r32 ar (ky (p 11) + ky (p 12)) / 2))"

definition direction :: "arith \<Rightarrow> person \<Rightarrow> real \<times> real" where
  "direction ar p =
     (rmix ar (fst (shoulders_mid ar p) - fst (hips_mid ar p)),
      rmix ar (snd (shoulders_mid ar p) - snd (hips_mid ar p)))"

definition vnorm :: "arith \<Rightarrow> real \<times> real \<Rightarrow> real" where
  "vnorm ar v = r64 ar (sqrt (rmix ar (rmix ar ((fst v)\<^sup>2) + rmix ar ((snd v)\<^sup>2))))"

definition are_facing_each_other :: "arith \<Rightarrow> person \<Rightarrow> person \<Rightarrow> bool" where
  "are_facing_each_other ar person1 person2 =
     (let d1 = direction ar person1; d2 = direction ar person2;
          n1 = vnorm ar d1; n2 = vnorm ar d2
      in if n1 > 0 \<and> n2 > 0
         then (let u1 = (rmix ar (fst d1 / rmix ar n1), rmix ar (snd d1 / rmix ar n1));
                   u2 = (rmix ar (fst d2 / rmix ar n2), rmix ar (snd d2 / rmix ar n2))
               in rmix ar (rmix ar (fst u1 * fst u2) + rmix ar (snd u1 * snd u2)) < 0)
         else False)"

definition hand_indices :: "nat list" where
  "hand_indices = [9, 10]"

definition body_indices :: "nat list" where
  "body_indices = [5, 6, 11, 12]"

text \<open>
  The two nested loops of \<open>_detect_hand_contact\<close>: \<open>continue\<close> on low confidence,
  \<open>return True\<close> at the first pair closer than 20 pixels.
\<close>

fun body_loop :: "arith \<Rightarrow> keypoint \<Rightarrow> person \<Rightarrow> nat list \<Rightarrow> bool" where
  "body_loop ar hand other [] = False"
| "body_loop ar hand other (b # bs) =
     (if kconf (other b) < 0.5 then body_loop ar hand other bs
      else if euclid ar hand (other b) < 20 then True
      else body_loop ar hand other bs)"

fun hand_loop :: "arith \<Rightarrow> person \<Rightarrow> person \<Rightarrow> nat list \<Rightarrow> bool" where
  "hand_loop ar owner other [] = False"
| "hand_loop ar owner other (h # hs) =
     (if kconf (owner h) < 0.5 then hand_loop ar owner other hs
      else if body_loop ar (owner h) other body_indices then True
      else hand_loop ar owner other hs)"

definition detect_hand_contact :: "arith \<Rightarrow> person \<Rightarrow> person \<Rightarrow> bool" where
  "detect_hand_contact ar person1 person2 =
     (if hand_loop ar person1 person2 hand_indices then True
      else if hand_loop ar person2 person1 hand_indices then True
      else False)"

definition contact_message :: string where
  "contact_message = ''Detected inappropriate physical contact between people''"

text \<open>
  \<open>check_inappropriate_contact\<close>: the loop over \<open>j\<close> in \<open>range(i+1, len(poses))\<close> and
  the loop over \<open>i\<close> in \<open>range(len(poses))\<close>, each leaving at the first hit.
\<close>

fun pair_inner :: "arith \<Rightarrow> person list \<Rightarrow> nat \<Rightarrow> nat list \<Rightarrow> bool" where
  "pair_inner ar poses i [] = False"
| "pair_inner ar poses i (j # js) =
     (if dless (calculate_minimum_distance ar (poses ! i) (poses ! j)) 30
      then (if are_facing_each_other ar (poses ! i) (poses ! j)
            then (if detect_hand_contact ar (poses ! i) (poses ! j) then True
                  else pair_inner ar poses i js)
            else pair_inner ar poses i js)
      else pair_inner ar poses i js)"

fun pair_outer :: "arith \<Rightarrow> person list \<Rightarrow> nat list \<Rightarrow> bool \<times> string" where
  "pair_outer ar poses [] = (False, [])"
| "pair_outer ar poses (i # is) =
     (if pair_inner ar poses i [i + 1 ..< length poses] then (True, contact_message)
      else pair_outer ar poses is)"

definition check_inappropriate_contact :: "arith \<Rightarrow> person list \<Rightarrow> bool \<times> string" where
  "check_inappropriate_contact ar poses =
     (if length poses < 2 then (False, [])
      else pair_outer ar poses [0 ..< length poses])"

subsection \<open>The three conditions in the words of the specification\<close>

text \<open>
  Every distance, midpoint, norm and product below is the number that the arithmetic
  \<open>ar\<close> gives for it.

  The distances between the shoulder and hip landmarks of two persons, restricted to
  landmarks of confidence at least 0.5; the pair is close when there is such a distance
  and the least of them is below 30 pixels.
\<close>

definition landmark_distances :: "arith \<Rightarrow> person \<Rightarrow> person \<Rightarrow> real set" where
  "landmark_distances ar p q =
     {euclid ar (p a) (q b) | a b.
        a \<in> {5, 6, 11, 12} \<and> b \<in> {5, 6, 11, 12} \<and> 0.5 \<le> kconf (p a) \<and> 0.5 \<le> kconf (q b)}"

definition close_spec :: "arith \<Rightarrow> person \<Rightarrow> person \<Rightarrow> bool" where
  "close_spec ar p q \<longleftrightarrow>
     landmark_distances ar p q \<noteq> {} \<and> Min (landmark_distances ar p q) < 30"

text \<open>
  The trunk vector runs from the midpoint of the hips to the midpoint of the shoulders;
  two persons face each other when both trunk vectors have a positive length and the
  vectors scaled to unit length have a negative dot product.
\<close>

definition midpoint_of :: "arith \<Rightarrow> keypoint \<Rightarrow> keypoint \<Rightarrow> real \<times> real" where
  "midpoint_of ar a b = (rmix ar (r32 ar (kx a + kx b) / 2), rmix ar (r32 ar (ky a + ky b) / 2))"

definition trunk :: "arith \<Rightarrow> person \<Rightarrow> real \<times> real" where
  "trunk ar p =
     (rmix ar (fst (midpoint_of ar (p 5) (p 6)) - fst (midpoint_of ar (p 11) (p 12))),
      rmix ar (snd (midpoint_of ar (p 5) (p 6)) - snd (midpoint_of ar (p 11) (p 12))))"

definition vlength :: "arith \<Rightarrow> real \<times> real \<Rightarrow> real" where
  "vlength ar v = r64 ar (sqrt (rmix ar (rmix ar ((fst v)\<^sup>2) + rmix ar ((snd v)\<^sup>2))))"

definition normalized :: "arith \<Rightarrow> real \<times> real \<Rightarrow> real \<times> real" where
  "normalized ar v =
     (rmix ar (fst v / rmix ar (vlength ar v)), rmix ar (snd v / rmix ar (vlength ar v)))"

definition dot :: "arith \<Rightarrow> real \<times> real \<Rightarrow> real \<times> real \<Rightarrow> real" where
  "dot ar u v = rmix ar (rmix ar (fst u * fst v) + rmix ar (snd u * snd v))"

definition facing_spec :: "arith \<Rightarrow> person \<Rightarrow> person \<Rightarrow> bool" where
  "facing_spec ar p q \<longleftrightarrow>
     0 < vlength ar (trunk ar p) \<and> 0 < vlength ar (trunk ar q) \<and>
     dot ar (normalized ar (trunk ar p)) (normalized ar (trunk ar q)) < 0"

text \<open>
  A wrist of \<open>p\<close> of confidence at least 0.5 is less than 20 pixels from a shoulder or
  hip of \<open>q\<close> of confidence at least 0.5.
\<close>

definition wrist_spec :: "arith \<Rightarrow> person \<Rightarrow> person \<Rightarrow> bool" where
  "wrist_spec ar p q \<longleftrightarrow>
     (\<exists>w \<in> {9, 10}. \<exists>b \<in> {5, 6, 11, 12}.
        0.5 \<le> kconf (p w) \<and> 0.5 \<le> kconf (q b) \<and> euclid ar (p w) (q b) < 20)"

definition contact_spec :: "arith \<Rightarrow> person list \<Rightarrow> bool" where
  "contact_spec ar poses \<longleftrightarrow>
     (\<exists>i j. i < j \<and> j < length poses \<and>
        close_spec ar (poses ! i) (poses ! j) \<and> facing_spec ar (poses ! i) (poses ! j) \<and>
        (wrist_spec ar (poses ! i) (poses ! j) \<or> wrist_spec ar (poses ! j) (poses ! i)))"

subsection \<open>Synthetic scenes of two persons\<close>

text \<open>
  A person given by its rows; rows that are not listed have confidence 0.
\<close>

definition person_of :: "(real \<times> real \<times> real) list \<Rightarrow> person" where
  "person_of rows i =
     (if i < length rows
      then (case rows ! i of (x, y, c) \<Rightarrow> \<lparr>kx = x, ky = y, kconf = c\<rparr>)
      else \<lparr>kx = 0, ky = 0, kconf = 0\<rparr>)"

text \<open>
  Person A stands upright: shoulders at (95, 100) and (105, 100), hips at (95, 160) and
  (105, 160). Its left wrist (row 9) is the argument; its right wrist is far from B.
\<close>

definition scene_a :: "real \<times> real \<Rightarrow> person" where
  "scene_a wrist =
     person_of
       [(100, 80, 1), (98, 78, 1), (102, 78, 1), (96, 80, 1), (104, 80, 1),
        (95, 100, 1), (105, 100, 1), (90, 125, 1), (110, 125, 1),
        (fst wrist, snd wrist, 1), (60, 130, 1),
        (95, 160, 1), (105, 160, 1), (95, 200, 1), (105, 200, 1), (95, 240, 1), (105, 240, 1)]"

text \<open>
  Person B is upside down next to A: shoulders at (105, 100) and (115, 100), hips at
  (105, 40) and (115, 40). The midpoints of the two pairs of shoulders are 10 pixels
  apart and the trunk vectors are (0, -60) and (0, 60).
\<close>

definition scene_b :: person where
  "scene_b =
     person_of
       [(110, 120, 1), (108, 122, 1), (112, 122, 1), (106, 120, 1), (114, 120, 1),
        (105, 100, 1), (115, 100, 1), (130, 85, 1), (135, 85, 1),
        (150, 70, 1), (160, 70, 1),
        (105, 40, 1), (115, 40, 1), (105, 0, 1), (115, 0, 1), (105, -40, 1), (115, -40, 1)]"

text \<open>
  In the near scene the wrist of A is 10 pixels from the shoulder of B at (115, 100);
  in the far scene it is 50 pixels from it, and nothing else is changed.
\<close>

definition scene_near :: "person list" where
  "scene_near = [scene_a (121, 92), scene_b]"

definition scene_far :: "person list" where
  "scene_far = [scene_a (145, 60), scene_b]"

text \<open>
  A scene of two broad persons, every landmark of confidence 1. A has its shoulders at
  (0, 500) and (200, 500) and its hips at (0, 800) and (200, 800); B has its shoulders at
  (110, 400) and (110, 600) and its hips at (110, 100) and (110, 300). The midpoints of
  the two pairs of shoulders, (100, 500) and (110, 500), are 10 pixels apart, the trunk
  vectors are (0, -300) and (0, 300), and the left wrist of A at (116, 608) is 10
  pixels from the shoulder of B at (110, 600). No shoulder or hip of A is within 130
  pixels of a shoulder or hip of B.
\<close>

definition wide_a :: person where
  "wide_a =
     person_of
       [(100, 450, 1), (90, 440, 1), (110, 440, 1), (80, 450, 1), (120, 450, 1),
        (0, 500, 1), (200, 500, 1), (0, 560, 1), (250, 650, 1),
        (116, 608, 1), (260, 800, 1),
        (0, 800, 1), (200, 800, 1), (0, 1000, 1), (200, 1000, 1), (0, 1200, 1), (200, 1200, 1)]"

definition wide_b :: person where
  "wide_b =
     person_of
       [(110, 650, 1), (100, 660, 1), (120, 660, 1), (90, 650, 1), (130, 650, 1),
        (110, 400, 1), (110, 600, 1), (300, 400, 1), (300, 600, 1),
        (400, 300, 1), (400, 700, 1),
        (110, 100, 1), (110, 300, 1), (110, 0, 1), (110, 50, 1), (110, -100, 1), (110, -50, 1)]"

definition scene_wide :: "person list" where
  "scene_wide = [wide_a, wide_b]"

text \<open>
  A scene on which rounding decides. Person B is bent double next to A: its shoulders
  are at (105, 100) and (115, \<open>100 + 2^-17\<close>) and its hips at (100, 100) and
  (120, 100), so that its trunk vector is (0, \<open>2^-18\<close>). The wrist of A at (111, 92) is
  10 pixels from the shoulder of B at (105, 100). In \<open>float32\<close> the sum
  \<open>100 + (100 + 2^-17)\<close> lies halfway between two floats and is rounded to 200.
\<close>

definition tie_b :: person where
  "tie_b =
     person_of
       [(110, 120, 1), (108, 122, 1), (112, 122, 1), (106, 120, 1), (114, 120, 1),
        (105, 100, 1), (115, 100 + 1 / 131072, 1), (130, 85, 1), (135, 85, 1),
        (150, 70, 1), (160, 70, 1),
        (100, 100, 1), (120, 100, 1), (105, 0, 1), (115, 0, 1), (105, -40, 1), (115, -40, 1)]"

definition scene_tie :: "person list" where
  "scene_tie = [scene_a (111, 92), tie_b]"

section \<open>Runs and sample data\<close>

subsection \<open>Alert store\<close>

text \<open>
  The ids held by a store, a run of successful \<open>add_alert\<close> calls, an empty store with
  no evidence files and one with two, and three alerts as \<open>Alert(...)\<close> builds them.
  The UUID texts of the first two differ and share their first eight characters.
\<close>

definition store_ids :: "store \<Rightarrow> string list" where
  "store_ids s = map alert_id (alerts s)"

fun add_many :: "store \<Rightarrow> alert list \<Rightarrow> store" where
  "add_many s [] = s"
| "add_many s (a # as) = add_many (fst (add_alert WriteOk s (AlertObj a))) as"

definition empty_store :: store where
  "empty_store = \<lparr>alerts = [], db_file = Some [], media = {}\<rparr>"

definition evidence_store :: store where
  "evidence_store =
     \<lparr>alerts = [], db_file = Some [], media = {''videos/a.mp4'', ''audio/c.wav''}\<rparr>"

definition alert_one :: alert where
  "alert_one =
     Alert_init ''12345678-aaaa-4aaa-8aaa-aaaaaaaaaaaa'' ''2024-05-01T10:00:00.000001''
       ''object_theft'' ''Potential theft detected: cup missing'' (Some ''videos/a.mp4'') None"

definition alert_two :: alert where
  "alert_two =
     Alert_init ''12345678-bbbb-4bbb-8bbb-bbbbbbbbbbbb'' ''2024-05-01T10:00:05.000001''
       ''inappropriate_contact'' ''Detected inappropriate physical contact between people''
       None None"

definition alert_three :: alert where
  "alert_three =
     Alert_init ''9abcdef0-cccc-4ccc-8ccc-cccccccccccc'' ''2024-05-01T09:59:00.000001''
       ''offensive_language'' ''Offensive language detected'' None (Some ''audio/c.wav'')"

subsection \<open>Evidence buffers\<close>

text \<open>
  The last \<open>n\<close> elements of a list, a run of pushes into a frame buffer and a run of
  audio callbacks.
\<close>

definition last_n :: "nat \<Rightarrow> 'a list \<Rightarrow> 'a list" where
  "last_n n xs = drop (length xs - n) xs"

fun push_all :: "int \<Rightarrow> 'f list \<Rightarrow> 'f list \<Rightarrow> 'f list" where
  "push_all m [] buf = buf"
| "push_all m (f # fs) buf = push_all m fs (push_frame m f buf)"

fun feed_all :: "real list list list \<Rightarrow> audio_processor \<Rightarrow> audio_processor" where
  "feed_all [] a = a"
| "feed_all (c # cs) a = feed_all cs (audio_callback c a)"

subsection \<open>Tracker\<close>

text \<open>
  \<open>gaps_within t ts\<close> says that the clock readings \<open>ts\<close>, starting after \<open>t\<close>, are
  never more than 3 seconds apart. The sample run has a cup and a laptop in view at the
  readings 0, 1 and 2 and the laptop alone from reading 3 on. \<open>cup_tracker\<close> is a tracker
  that saw the cup at reading 0.
\<close>

fun gaps_within :: "real \<Rightarrow> real list \<Rightarrow> bool" where
  "gaps_within t [] = True"
| "gaps_within t (u # us) = (u - t \<le> 3 \<and> gaps_within u us)"

definition cup_det :: detection where
  "cup_det = \<lparr>det_x1 = 100, det_y1 = 100, det_x2 = 140, det_y2 = 140, det_conf = 0.9,
              det_class = ''cup''\<rparr>"

definition laptop_det :: detection where
  "laptop_det = \<lparr>det_x1 = 300, det_y1 = 200, det_x2 = 500, det_y2 = 340, det_conf = 0.8,
                 det_class = ''laptop''\<rparr>"

definition person_det :: detection where
  "person_det = \<lparr>det_x1 = 10, det_y1 = 20, det_x2 = 110, det_y2 = 400, det_conf = 0.7,
                 det_class = ''person''\<rparr>"

definition bottle_det :: detection where
  "bottle_det = \<lparr>det_x1 = 35, det_y1 = 50, det_x2 = 85, det_y2 = 150, det_conf = 0.6,
                 det_class = ''bottle''\<rparr>"

definition cup_tracker :: tracker where
  "cup_tracker =
     \<lparr>tracked_objects =
        [((''cup'', 6, 6, 3),
          \<lparr>obj_class = ''cup'', obj_position = (120, 120), obj_size = 1600, last_seen = 0,
             box = (100, 100, 140, 140)\<rparr>)],
      missing_objects = []\<rparr>"

definition new_tracker :: tracker where
  "new_tracker = \<lparr>tracked_objects = [], missing_objects = []\<rparr>"

definition cup_then_absent :: "(real \<times> detection list) list" where
  "cup_then_absent =
     [(0, [cup_det, laptop_det]), (1, [cup_det, laptop_det]), (2, [cup_det, laptop_det]),
      (3, [laptop_det]), (4, [laptop_det]), (5, [laptop_det]), (6, [laptop_det]),
      (7, [laptop_det])]"

subsection \<open>Contact heuristic\<close>

text \<open>
  The test that \<open>check_inappropriate_contact\<close> applies to one pair of persons.
\<close>

definition contact_cond :: "arith \<Rightarrow> person \<Rightarrow> person \<Rightarrow> bool" where
  "contact_cond ar p q \<longleftrightarrow>
     dless (calculate_minimum_distance ar p q) 30 \<and> are_facing_each_other ar p q \<and>
     detect_hand_contact ar p q"

section \<open>Properties of the alert store\<close>

lemma fst_save [simp]: "alerts (fst (save_alerts w s)) = alerts s"
  by (cases w) simp_all

lemma media_save [simp]: "media (fst (save_alerts w s)) = media s"
  by (cases w) simp_all

lemma snd_save: "snd (save_alerts w s) = (if w = WriteOk then Inr () else Inl IOError)"
  by (cases w) simp_all

lemma db_save_ok [simp]: "db_file (fst (save_alerts WriteOk s)) = Some (alerts s)"
  by simp

lemma alerts_add: "alerts (fst (add_alert w s (AlertObj a))) = alerts s @ [to_dict a]"
  by (cases w) simp_all

lemma snd_add: "snd (add_alert w s (AlertObj a)) = (if w = WriteOk then Inr (alert_id a) else Inl IOError)"
  by (cases w) simp_all

lemma add_other [simp]: "add_alert w s OtherObj = (s, Inl ValueError)"
  by simp

declare add_alert.simps [simp del]

lemma media_add: "media (fst (add_alert w s x)) = media s"
  by (cases x; cases w) (simp_all add: add_alert.simps)

lemma find_append:
  "find P (xs @ ys) = (case find P xs of None \<Rightarrow> find P ys | Some x \<Rightarrow> Some x)"
  by (induction xs) simp_all

lemma to_dict_id [simp]: "to_dict a = a"
  by (simp add: to_dict_def)

lemma ids_mark_first [simp]: "map alert_id (mark_first aid fb xs) = map alert_id xs"
  by (induction xs) simp_all

lemma length_mark_first [simp]: "length (mark_first aid fb xs) = length xs"
  by (induction xs) simp_all

lemma find_mark_first_same:
  "find (\<lambda>a. alert_id a = aid) xs = Some a \<Longrightarrow>
   find (\<lambda>a. alert_id a = aid) (mark_first aid fb xs) = Some (a\<lparr>is_false_positive := True, feedback := fb\<rparr>)"
  by (induction xs) (auto split: if_splits)

lemma find_mark_first_other:
  "x \<noteq> aid \<Longrightarrow> find (\<lambda>a. alert_id a = x) (mark_first aid fb xs) = find (\<lambda>a. alert_id a = x) xs"
  by (induction xs) auto

lemma find_None_mark_first: "find (\<lambda>a. alert_id a = aid) xs = None \<Longrightarrow> mark_first aid fb xs = xs"
  by (induction xs) (auto split: if_splits)

lemma flags_mark_first:
  "i < length xs \<Longrightarrow> is_false_positive (xs ! i) \<Longrightarrow> is_false_positive (mark_first aid fb xs ! i)"
  by (induction xs arbitrary: i) (auto simp: nth_Cons split: nat.splits)

lemma index_of_find: "index_of aid xs = None \<longleftrightarrow> find (\<lambda>a. alert_id a = aid) xs = None"
  by (induction xs) (auto split: option.splits)

lemma index_of_Some: "index_of aid xs = Some i \<Longrightarrow> i < length xs \<and> find (\<lambda>a. alert_id a = aid) xs = Some (xs ! i) \<and> pop i xs = remove1 (xs ! i) xs"
proof (induction xs arbitrary: i)
  case Nil then show ?case by simp
next
  case (Cons x xs)
  show ?case
  proof (cases "alert_id x = aid")
    case True
    with Cons.prems show ?thesis by (simp add: pop_def)
  next
    case False
    with Cons.prems obtain j where j: "index_of aid xs = Some j" "i = Suc j"
      by (auto split: option.splits)
    from Cons.IH[OF j(1)] have ih: "j < length xs" "find (\<lambda>a. alert_id a = aid) xs = Some (xs ! j)" "pop j xs = remove1 (xs ! j) xs" by auto
    from ih(2) have "alert_id (xs ! j) = aid" by (auto simp: find_Some_iff)
    with False have "x \<noteq> xs ! j" by auto
    with ih j False show ?thesis by (auto simp: pop_def)
  qed
qed

lemma distinct_take_drop_Suc: "distinct ys \<Longrightarrow> distinct (take i ys @ drop (Suc i) ys)"
  using set_take_disj_set_drop_if_distinct [of ys i "Suc i"] by simp

lemma distinct_pop: "distinct (map f xs) \<Longrightarrow> distinct (map f (pop i xs))"
  using distinct_take_drop_Suc [of "map f xs" i] by (simp add: pop_def take_map drop_map)

lemma find_SomeD: "find P xs = Some a \<Longrightarrow> P a \<and> a \<in> set xs"
  by (induction xs) (simp_all split: if_splits)

lemma find_remove1_unique:
  "find P xs = Some a \<Longrightarrow> length (filter P xs) = 1 \<Longrightarrow> find P (remove1 a xs) = None"
proof (induction xs)
  case Nil then show ?case by simp
next
  case (Cons x xs)
  show ?case
  proof (cases "P x")
    case True
    with Cons.prems have "x = a" "filter P xs = []" by simp_all
    then show ?thesis by (simp add: find_None_iff filter_empty_conv)
  next
    case False
    with Cons.prems have "find P xs = Some a" "length (filter P xs) = 1" by simp_all
    from Cons.IH[OF this] find_SomeD[OF this(1)] False show ?thesis by auto
  qed
qed

lemma find_remove1_other:
  "find P xs = Some a \<Longrightarrow> \<not> Q a \<Longrightarrow> find Q (remove1 a xs) = find Q xs"
  by (induction xs) (auto split: if_splits)

lemma delete_media_subset: "delete_media rm ps fs \<subseteq> fs"
  by (induction rm ps fs rule: delete_media.induct) auto

lemma delete_media_eq:
  "delete_media rm ps fs = fs - {p. Some p \<in> set ps \<and> p \<noteq> [] \<and> \<not> rm p}"
  by (induction rm ps fs rule: delete_media.induct) auto

lemma alerts_add_many: "alerts (add_many s as) = alerts s @ as"
  by (induction as arbitrary: s) (simp_all add: alerts_add)

lemma db_file_add_ok: "db_file (fst (add_alert WriteOk s (AlertObj a))) = Some (alerts s @ [a])"
  by (simp add: add_alert.simps)

lemma db_file_add_many: "as \<noteq> [] \<Longrightarrow> db_file (add_many s as) = Some (alerts s @ as)"
proof (induction as arbitrary: s)
  case Nil then show ?case by simp
next
  case (Cons a as)
  show ?case
  proof (cases "as = []")
    case True then show ?thesis by (simp add: db_file_add_ok)
  next
    case False
    from Cons.IH[OF this] show ?thesis by (simp add: alerts_add)
  qed
qed

declare add_many.simps [simp del]

lemma media_add_many: "media (add_many s as) = media s"
  by (induction as arbitrary: s) (simp_all add: add_many.simps media_add)

lemma db_file_add_fail:
  "w \<noteq> WriteOk \<Longrightarrow>
   db_file (fst (add_alert w s (AlertObj a))) = db_file s \<or>
   db_file (fst (add_alert w s (AlertObj a))) = None"
  by (cases w) (simp_all add: add_alert.simps)

lemma mark_unfold:
  "get_alert_by_id s aid = Some a \<Longrightarrow>
   mark_as_false_positive w s aid fb =
     (fst (save_alerts w (s\<lparr>alerts := mark_first aid fb (alerts s)\<rparr>)),
      if w = WriteOk then Inr True else Inl IOError)"
  by (cases w) (simp_all add: mark_as_false_positive_def)

lemma mark_unknown:
  "get_alert_by_id s aid = None \<Longrightarrow> mark_as_false_positive w s aid fb = (s, Inr False)"
  by (simp add: mark_as_false_positive_def)

lemma alerts_mark:
  "alerts (fst (mark_as_false_positive w s aid fb)) = mark_first aid fb (alerts s)"
proof (cases "get_alert_by_id s aid")
  case None
  then show ?thesis
    by (simp add: mark_unknown find_None_mark_first get_alert_by_id_def)
next
  case (Some a)
  then show ?thesis by (simp add: mark_unfold)
qed

lemma delete_unfold:
  "index_of aid (alerts s) = Some i \<Longrightarrow>
   delete_alert w rm s aid =
     (fst (save_alerts w
             (s\<lparr>media := delete_media rm [video_path (alerts s ! i), audio_path (alerts s ! i)]
                           (media s),
                alerts := pop i (alerts s)\<rparr>)),
      if w = WriteOk then Inr True else Inl IOError)"
  by (cases w) (simp_all add: delete_alert_def)

lemma delete_unknown:
  "get_alert_by_id s aid = None \<Longrightarrow> delete_alert w rm s aid = (s, Inr False)"
  by (simp add: delete_alert_def get_alert_by_id_def index_of_find [symmetric])

lemma delete_present:
  assumes "get_alert_by_id s aid = Some a"
  shows "alerts (fst (delete_alert w rm s aid)) = remove1 a (alerts s)"
    and "snd (delete_alert w rm s aid) = (if w = WriteOk then Inr True else Inl IOError)"
    and "media (fst (delete_alert w rm s aid)) \<subseteq> media s"
    and "db_file (fst (delete_alert WriteOk rm s aid)) = Some (remove1 a (alerts s))"
    and "media (fst (delete_alert w rm s aid)) =
           media s - {p. (video_path a = Some p \<or> audio_path a = Some p) \<and> p \<noteq> [] \<and> \<not> rm p}"
proof -
  from assms have "index_of aid (alerts s) \<noteq> None"
    by (simp add: index_of_find get_alert_by_id_def)
  then obtain i where i: "index_of aid (alerts s) = Some i" by auto
  from index_of_Some [OF i] assms have a: "alerts s ! i = a" "pop i (alerts s) = remove1 a (alerts s)"
    by (auto simp: get_alert_by_id_def)
  show "alerts (fst (delete_alert w rm s aid)) = remove1 a (alerts s)"
    by (simp add: delete_unfold [OF i] a)
  show "snd (delete_alert w rm s aid) = (if w = WriteOk then Inr True else Inl IOError)"
    by (simp add: delete_unfold [OF i])
  show "media (fst (delete_alert w rm s aid)) \<subseteq> media s"
    by (simp add: delete_unfold [OF i] delete_media_subset)
  show "db_file (fst (delete_alert WriteOk rm s aid)) = Some (remove1 a (alerts s))"
    by (simp add: delete_unfold [OF i] a)
  show "media (fst (delete_alert w rm s aid)) =
          media s - {p. (video_path a = Some p \<or> audio_path a = Some p) \<and> p \<noteq> [] \<and> \<not> rm p}"
    by (auto simp: delete_unfold [OF i] a delete_media_eq)
qed

text \<open>
  Claim C1, as stated, fails: when the write of \<open>add_alert\<close> fails, the error reaches the
  caller, yet the new record stays in \<open>self.alerts\<close> while the file still holds the old
  collection. Here the store is empty and in step with its file, and \<open>open\<close> raises.
\<close>

theorem add_alert_write_failure_retains_record:
  "snd (add_alert OpenFails empty_store (AlertObj alert_one)) = Inl IOError \<and>
   alerts (fst (add_alert OpenFails empty_store (AlertObj alert_one))) = [to_dict alert_one] \<and>
   db_file (fst (add_alert OpenFails empty_store (AlertObj alert_one))) = Some []"
  by (simp add: empty_store_def add_alert.simps)

text \<open>
  Claim C1, amended: if persisting the collection fails during \<open>add_alert\<close>, the failure
  is surfaced to the caller as an \<open>IOError\<close> and no id is returned; the new record
  remains appended to the in-memory list, so that a store that was in step with its file
  before the call is no longer in step with it afterwards.
\<close>

theorem add_alert_write_failure:
  assumes "w \<noteq> WriteOk" and "db_file s = Some (alerts s)"
  shows "snd (add_alert w s (AlertObj a)) = Inl IOError \<and>
         alerts (fst (add_alert w s (AlertObj a))) = alerts s @ [to_dict a] \<and>
         db_file (fst (add_alert w s (AlertObj a))) \<noteq>
           Some (alerts (fst (add_alert w s (AlertObj a))))"
proof (intro conjI)
  show "snd (add_alert w s (AlertObj a)) = Inl IOError"
    using assms(1) by (simp only: snd_add if_False)
  show "alerts (fst (add_alert w s (AlertObj a))) = alerts s @ [to_dict a]"
    by (rule alerts_add)
  show "db_file (fst (add_alert w s (AlertObj a))) \<noteq>
          Some (alerts (fst (add_alert w s (AlertObj a))))"
    using db_file_add_fail [OF assms(1), of s a] assms(2) by (auto simp: alerts_add)
qed

theorem add_alert_write_failure_witness:
  "snd (add_alert DumpFails empty_store (AlertObj alert_three)) = Inl IOError \<and>
   alerts (fst (add_alert DumpFails empty_store (AlertObj alert_three))) = [alert_three] \<and>
   db_file (fst (add_alert DumpFails empty_store (AlertObj alert_three))) \<noteq>
     Some (alerts (fst (add_alert DumpFails empty_store (AlertObj alert_three))))"
  using add_alert_write_failure [of DumpFails empty_store alert_three]
  by (simp add: empty_store_def alerts_add)

text \<open>
  Claim C4: \<open>mark_as_false_positive\<close> on a present id sets the flag of the alert that
  \<open>get_alert_by_id\<close> returns, stores the feedback, writes the collection and returns
  \<open>True\<close>; on an unknown id it returns \<open>False\<close>, raises nothing and changes nothing,
  whatever a write would have done. An alert as \<open>Alert(...)\<close> builds it has the flag
  unset and empty feedback, it is the record that \<open>add_alert\<close> appends, and it is what
  \<open>get_alert_by_id\<close> gives for its id when no earlier record bears that id. A second
  call leaves the flag set, and no call ever unsets a flag that is set.
\<close>

theorem mark_as_false_positive_correct:
  "(get_alert_by_id s aid = Some a \<longrightarrow>
      snd (mark_as_false_positive WriteOk s aid fb) = Inr True \<and>
      get_alert_by_id (fst (mark_as_false_positive WriteOk s aid fb)) aid =
        Some (a\<lparr>is_false_positive := True, feedback := fb\<rparr>) \<and>
      db_file (fst (mark_as_false_positive WriteOk s aid fb)) =
        Some (alerts (fst (mark_as_false_positive WriteOk s aid fb)))) \<and>
   (get_alert_by_id s aid = None \<longrightarrow> mark_as_false_positive w s aid fb = (s, Inr False)) \<and>
   is_false_positive (Alert_init u t ty d v au) = False \<and>
   feedback (Alert_init u t ty d v au) = [] \<and>
   last (alerts (fst (add_alert w s (AlertObj (Alert_init u t ty d v au))))) =
     Alert_init u t ty d v au \<and>
   (get_alert_by_id s (take 8 u) = None \<longrightarrow>
      get_alert_by_id (fst (add_alert w s (AlertObj (Alert_init u t ty d v au)))) (take 8 u) =
        Some (Alert_init u t ty d v au)) \<and>
   (get_alert_by_id s aid = Some a \<longrightarrow>
      get_alert_by_id
        (fst (mark_as_false_positive w2 (fst (mark_as_false_positive w1 s aid fb)) aid fb2)) aid =
        Some (a\<lparr>is_false_positive := True, feedback := fb2\<rparr>)) \<and>
   (i < length (alerts s) \<and> is_false_positive (alerts s ! i) \<longrightarrow>
      is_false_positive (alerts (fst (mark_as_false_positive w s aid fb)) ! i))"
proof (intro conjI impI)
  assume p: "get_alert_by_id s aid = Some a"
  show "snd (mark_as_false_positive WriteOk s aid fb) = Inr True"
    using p by (simp add: mark_unfold)
  show "get_alert_by_id (fst (mark_as_false_positive WriteOk s aid fb)) aid =
          Some (a\<lparr>is_false_positive := True, feedback := fb\<rparr>)"
    using p by (simp add: get_alert_by_id_def alerts_mark find_mark_first_same)
  show "db_file (fst (mark_as_false_positive WriteOk s aid fb)) =
          Some (alerts (fst (mark_as_false_positive WriteOk s aid fb)))"
    using p by (simp add: mark_unfold)
next
  assume "get_alert_by_id s aid = None"
  then show "mark_as_false_positive w s aid fb = (s, Inr False)" by (rule mark_unknown)
next
  show "is_false_positive (Alert_init u t ty d v au) = False" by (simp add: Alert_init_def)
  show "feedback (Alert_init u t ty d v au) = []" by (simp add: Alert_init_def)
  show "last (alerts (fst (add_alert w s (AlertObj (Alert_init u t ty d v au))))) =
          Alert_init u t ty d v au"
    by (simp only: alerts_add to_dict_id last_snoc)
next
  assume "get_alert_by_id s (take 8 u) = None"
  then show "get_alert_by_id (fst (add_alert w s (AlertObj (Alert_init u t ty d v au)))) (take 8 u) =
               Some (Alert_init u t ty d v au)"
    by (simp add: get_alert_by_id_def alerts_add find_append) (simp add: Alert_init_def)
next
  assume p: "get_alert_by_id s aid = Some a"
  have "find (\<lambda>x. alert_id x = aid) (mark_first aid fb (alerts s)) =
          Some (a\<lparr>is_false_positive := True, feedback := fb\<rparr>)"
    using p by (simp add: get_alert_by_id_def find_mark_first_same)
  from find_mark_first_same [OF this, of fb2]
  show "get_alert_by_id
          (fst (mark_as_false_positive w2 (fst (mark_as_false_positive w1 s aid fb)) aid fb2)) aid =
          Some (a\<lparr>is_false_positive := True, feedback := fb2\<rparr>)"
    by (simp add: get_alert_by_id_def alerts_mark)
next
  assume "i < length (alerts s) \<and> is_false_positive (alerts s ! i)"
  then show "is_false_positive (alerts (fst (mark_as_false_positive w s aid fb)) ! i)"
    by (simp add: alerts_mark flags_mark_first)
qed

theorem mark_as_false_positive_witness:
  "snd (mark_as_false_positive WriteOk (add_many empty_store [alert_one, alert_three])
          ''9abcdef0'' ''note'') = Inr True \<and>
   get_alert_by_id
     (fst (mark_as_false_positive WriteOk (add_many empty_store [alert_one, alert_three])
             ''9abcdef0'' ''note'')) ''9abcdef0'' =
     Some (alert_three\<lparr>is_false_positive := True, feedback := ''note''\<rparr>) \<and>
   get_alert_by_id
     (fst (mark_as_false_positive WriteOk
             (fst (mark_as_false_positive WriteOk (add_many empty_store [alert_one, alert_three])
                     ''9abcdef0'' ''note''))
             ''9abcdef0'' ''again'')) ''9abcdef0'' =
     Some (alert_three\<lparr>is_false_positive := True, feedback := ''again''\<rparr>)"
proof -
  have g: "get_alert_by_id (add_many empty_store [alert_one, alert_three]) ''9abcdef0'' =
             Some alert_three"
    by (simp add: get_alert_by_id_def alerts_add_many empty_store_def alert_one_def
        alert_three_def Alert_init_def)
  show ?thesis
    using g mark_as_false_positive_correct
      [where s = "add_many empty_store [alert_one, alert_three]" and aid = "''9abcdef0''"
         and a = alert_three and fb = "''note''" and ?w1.0 = WriteOk and ?w2.0 = WriteOk
         and ?fb2.0 = "''again''"]
    by simp
qed

text \<open>
  In a store where exactly one record bears the id, \<open>delete_alert\<close> does all that is
  asked of it: the record goes, whichever removals of evidence files fail, the files of
  the record whose removal succeeds go and no other, the collection is written, and the
  id is no longer found. On an unknown id nothing changes.
\<close>

lemma delete_alert_unique_id:
  "(get_alert_by_id s aid = Some a \<longrightarrow>
      snd (delete_alert WriteOk rm_fails s aid) = Inr True \<and>
      alerts (fst (delete_alert WriteOk rm_fails s aid)) = remove1 a (alerts s) \<and>
      db_file (fst (delete_alert WriteOk rm_fails s aid)) =
        Some (alerts (fst (delete_alert WriteOk rm_fails s aid))) \<and>
      media (fst (delete_alert WriteOk rm_fails s aid)) =
        media s - {p. (video_path a = Some p \<or> audio_path a = Some p) \<and> p \<noteq> [] \<and>
                      \<not> rm_fails p} \<and>
      (length (filter (\<lambda>x. alert_id x = aid) (alerts s)) = 1 \<longrightarrow>
         get_alert_by_id (fst (delete_alert WriteOk rm_fails s aid)) aid = None)) \<and>
   (get_alert_by_id s aid = None \<longrightarrow> delete_alert w rm_fails s aid = (s, Inr False))"
proof (intro conjI impI)
  assume p: "get_alert_by_id s aid = Some a"
  show "snd (delete_alert WriteOk rm_fails s aid) = Inr True"
    by (simp add: delete_present(2) [OF p])
  show r: "alerts (fst (delete_alert WriteOk rm_fails s aid)) = remove1 a (alerts s)"
    by (rule delete_present(1) [OF p])
  show "db_file (fst (delete_alert WriteOk rm_fails s aid)) =
          Some (alerts (fst (delete_alert WriteOk rm_fails s aid)))"
    by (simp add: delete_present(4) [OF p] r)
  show "media (fst (delete_alert WriteOk rm_fails s aid)) =
          media s - {p. (video_path a = Some p \<or> audio_path a = Some p) \<and> p \<noteq> [] \<and>
                        \<not> rm_fails p}"
    by (rule delete_present(5) [OF p])
  assume "length (filter (\<lambda>x. alert_id x = aid) (alerts s)) = 1"
  with p show "get_alert_by_id (fst (delete_alert WriteOk rm_fails s aid)) aid = None"
    by (simp add: get_alert_by_id_def r find_remove1_unique)
next
  assume "get_alert_by_id s aid = None"
  then show "delete_alert w rm_fails s aid = (s, Inr False)" by (rule delete_unknown)
qed

lemma delete_alert_example:
  "snd (delete_alert WriteOk (\<lambda>p. True) (add_many evidence_store [alert_one, alert_three])
          ''9abcdef0'') = Inr True \<and>
   alerts (fst (delete_alert WriteOk (\<lambda>p. True) (add_many evidence_store [alert_one, alert_three])
             ''9abcdef0'')) = [alert_one] \<and>
   media (fst (delete_alert WriteOk (\<lambda>p. True) (add_many evidence_store [alert_one, alert_three])
             ''9abcdef0'')) = {''videos/a.mp4'', ''audio/c.wav''} \<and>
   media (fst (delete_alert WriteOk (\<lambda>p. False) (add_many evidence_store [alert_one, alert_three])
             ''9abcdef0'')) = {''videos/a.mp4''} \<and>
   get_alert_by_id
     (fst (delete_alert WriteOk (\<lambda>p. True) (add_many evidence_store [alert_one, alert_three])
             ''9abcdef0'')) ''9abcdef0'' = None"
proof -
  have g: "get_alert_by_id (add_many evidence_store [alert_one, alert_three]) ''9abcdef0'' =
             Some alert_three"
    by (simp add: get_alert_by_id_def alerts_add_many evidence_store_def alert_one_def
        alert_three_def Alert_init_def)
  have u: "length (filter (\<lambda>x. alert_id x = ''9abcdef0'')
             (alerts (add_many evidence_store [alert_one, alert_three]))) = 1"
    by (simp add: alerts_add_many evidence_store_def alert_one_def alert_three_def Alert_init_def)
  have ne: "alert_three \<noteq> alert_one"
    by (simp add: alert_one_def alert_three_def Alert_init_def)
  have p: "video_path alert_three = None" "audio_path alert_three = Some ''audio/c.wav''"
    by (simp_all add: alert_three_def Alert_init_def)
  show ?thesis
    using g u ne delete_alert_unique_id
      [where s = "add_many evidence_store [alert_one, alert_three]" and aid = "''9abcdef0''"
         and a = alert_three and rm_fails = "\<lambda>p. True"]
      delete_alert_unique_id
      [where s = "add_many evidence_store [alert_one, alert_three]" and aid = "''9abcdef0''"
         and a = alert_three and rm_fails = "\<lambda>p. False"]
    by (auto simp: alerts_add_many media_add_many evidence_store_def p)
qed

text \<open>
  Claim C5 on a store reached by two successful adds of alerts whose UUID texts share
  their first eight characters: \<open>delete_alert\<close> of that id returns \<open>True\<close>, removes the
  first of the two records and its video file, and \<open>get_alert_by_id\<close> of the same id
  still finds a record, where the claim says it finds none.
\<close>

theorem delete_alert_duplicate_id_still_found:
  "snd (delete_alert WriteOk (\<lambda>p. False) (add_many evidence_store [alert_one, alert_two])
          ''12345678'') = Inr True \<and>
   alerts (fst (delete_alert WriteOk (\<lambda>p. False) (add_many evidence_store [alert_one, alert_two])
             ''12345678'')) = [alert_two] \<and>
   media (fst (delete_alert WriteOk (\<lambda>p. False) (add_many evidence_store [alert_one, alert_two])
             ''12345678'')) = {''audio/c.wav''} \<and>
   get_alert_by_id
     (fst (delete_alert WriteOk (\<lambda>p. False) (add_many evidence_store [alert_one, alert_two])
             ''12345678'')) ''12345678'' = Some alert_two"
proof -
  have g: "get_alert_by_id (add_many evidence_store [alert_one, alert_two]) ''12345678'' =
             Some alert_one"
    by (simp add: get_alert_by_id_def alerts_add_many evidence_store_def alert_one_def
        Alert_init_def)
  have ne: "alert_one \<noteq> alert_two"
    by (simp add: alert_one_def alert_two_def Alert_init_def)
  have p: "video_path alert_one = Some ''videos/a.mp4''" "audio_path alert_one = None"
    by (simp_all add: alert_one_def Alert_init_def)
  have a: "alerts (fst (delete_alert WriteOk (\<lambda>p. False)
             (add_many evidence_store [alert_one, alert_two]) ''12345678'')) = [alert_two]"
    using ne delete_present(1) [OF g, of WriteOk "\<lambda>p. False"]
    by (simp add: alerts_add_many evidence_store_def)
  have m: "media (fst (delete_alert WriteOk (\<lambda>p. False)
             (add_many evidence_store [alert_one, alert_two]) ''12345678'')) = {''audio/c.wav''}"
    using delete_present(5) [OF g, of WriteOk "\<lambda>p. False"]
    by (auto simp: media_add_many evidence_store_def p)
  have i: "alert_id alert_two = ''12345678''"
    by (simp add: alert_two_def Alert_init_def)
  show ?thesis
    by (simp add: delete_present(2) [OF g] a m get_alert_by_id_def i)
qed

text \<open>
  Claim C6: \<open>get_all_alerts\<close> returns all stored alerts, ordered by timestamp
  descending, and the sequence of timestamps returned does not depend on the order in
  which the alerts are stored.
\<close>

theorem get_all_alerts_descending:
  "mset (get_all_alerts s) = mset (alerts s) \<and>
   sorted_wrt (\<lambda>a b. timestamp b \<le> timestamp a) (get_all_alerts s) \<and>
   (mset (alerts s') = mset (alerts s) \<longrightarrow>
      map timestamp (get_all_alerts s') = map timestamp (get_all_alerts s))"
proof (intro conjI impI)
  show "mset (get_all_alerts s) = mset (alerts s)"
    by (simp add: get_all_alerts_def)
  have "sorted (map timestamp (sort_key timestamp (rev (alerts s))))" by simp
  then have "sorted_wrt (\<lambda>a b. timestamp a \<le> timestamp b) (sort_key timestamp (rev (alerts s)))"
    by (simp only: sorted_map)
  then show "sorted_wrt (\<lambda>a b. timestamp b \<le> timestamp a) (get_all_alerts s)"
    by (simp add: get_all_alerts_def sorted_wrt_rev)
next
  assume m: "mset (alerts s') = mset (alerts s)"
  have desc: "\<And>t. sorted (rev (map timestamp (get_all_alerts t)))"
    by (simp add: get_all_alerts_def rev_map)
  have "mset (rev (map timestamp (get_all_alerts s'))) = mset (rev (map timestamp (get_all_alerts s)))"
    using m by (simp add: get_all_alerts_def)
  then have "rev (map timestamp (get_all_alerts s')) = rev (map timestamp (get_all_alerts s))"
    using desc by (metis properties_for_sort)
  then show "map timestamp (get_all_alerts s') = map timestamp (get_all_alerts s)" by simp
qed

theorem get_all_alerts_witness:
  "map timestamp (get_all_alerts (add_many empty_store [alert_three, alert_two, alert_one])) =
   map timestamp (get_all_alerts (add_many empty_store [alert_one, alert_two, alert_three])) \<and>
   get_all_alerts (add_many empty_store [alert_one, alert_two, alert_three]) =
     [alert_two, alert_one, alert_three]"
proof -
  have v: "get_all_alerts (add_many empty_store [alert_one, alert_two, alert_three]) =
             [alert_two, alert_one, alert_three]"
    by (simp add: get_all_alerts_def alerts_add_many empty_store_def alert_one_def alert_two_def
        alert_three_def Alert_init_def less_char_def less_eq_char_def)
  have m: "mset (alerts (add_many empty_store [alert_three, alert_two, alert_one])) =
           mset (alerts (add_many empty_store [alert_one, alert_two, alert_three]))"
    by (simp add: alerts_add_many empty_store_def)
  show ?thesis
    using m v get_all_alerts_descending
      [where s = "add_many empty_store [alert_one, alert_two, alert_three]"
         and s' = "add_many empty_store [alert_three, alert_two, alert_one]"]
    by simp
qed

text \<open>
  What the store does for its ids: \<open>mark_as_false_positive\<close> and \<open>delete_alert\<close> keep
  distinct ids distinct, and \<open>add_alert\<close> keeps them distinct exactly when the id it is
  given is not yet stored.
\<close>

lemma ids_distinct_preserved:
  assumes "distinct (store_ids s)"
  shows "distinct (store_ids (fst (mark_as_false_positive w s aid fb))) \<and>
         distinct (store_ids (fst (delete_alert w rm_fails s aid))) \<and>
         (distinct (store_ids (fst (add_alert w s (AlertObj a)))) \<longleftrightarrow>
            alert_id a \<notin> set (store_ids s)) \<and>
         (distinct (map alert_id as) \<and> set (map alert_id as) \<inter> set (store_ids s) = {} \<longrightarrow>
            distinct (store_ids (add_many s as)) \<and>
            length (store_ids (add_many s as)) = length (store_ids s) + length as)"
proof (intro conjI impI)
  show "distinct (store_ids (fst (mark_as_false_positive w s aid fb)))"
    using assms by (simp add: store_ids_def alerts_mark)
  show "distinct (store_ids (fst (delete_alert w rm_fails s aid)))"
  proof (cases "index_of aid (alerts s)")
    case None
    then show ?thesis using assms by (simp add: delete_alert_def)
  next
    case (Some i)
    then show ?thesis
      using assms by (simp add: delete_unfold store_ids_def distinct_pop)
  qed
  show "distinct (store_ids (fst (add_alert w s (AlertObj a)))) \<longleftrightarrow>
          alert_id a \<notin> set (store_ids s)"
    using assms by (simp add: store_ids_def alerts_add)
next
  assume "distinct (map alert_id as) \<and> set (map alert_id as) \<inter> set (store_ids s) = {}"
  then show "distinct (store_ids (add_many s as))"
    using assms by (auto simp: store_ids_def alerts_add_many)
next
  show "length (store_ids (add_many s as)) = length (store_ids s) + length as"
    by (simp add: store_ids_def alerts_add_many)
qed

text \<open>
  Claim C8 on two alerts built from different UUID texts with the same first eight
  characters: both are added with success under the same id, and the store then holds
  that id twice, where the claim says every add assigns a fresh id.
\<close>

theorem colliding_ids_counterexample:
  "alert_one \<noteq> alert_two \<and>
   snd (add_alert WriteOk empty_store (AlertObj alert_one)) = Inr ''12345678'' \<and>
   snd (add_alert WriteOk (fst (add_alert WriteOk empty_store (AlertObj alert_one)))
          (AlertObj alert_two)) = Inr ''12345678'' \<and>
   store_ids (add_many empty_store [alert_one, alert_two]) = [''12345678'', ''12345678''] \<and>
   \<not> distinct (store_ids (add_many empty_store [alert_one, alert_two]))"
  by (simp add: snd_add store_ids_def alerts_add_many empty_store_def)
     (simp add: alert_one_def alert_two_def Alert_init_def)

section \<open>Properties of the evidence buffers\<close>

text \<open>
  A frame buffer that starts within its capacity always holds the last \<open>nat m\<close> frames
  pushed, for every integer capacity \<open>m\<close>; an audio buffer does so for every capacity
  \<open>m > 0\<close>.
\<close>

lemma length_last_n: "length (last_n n xs) = min n (length xs)"
  by (simp add: last_n_def)

lemma last_n_all: "length xs \<le> n \<Longrightarrow> last_n n xs = xs"
  by (simp add: last_n_def)

lemma last_n_append: "last_n n (last_n n xs @ ys) = last_n n (xs @ ys)"
proof (cases "n \<le> length xs")
  case True
  have "last_n n (last_n n xs @ ys) = drop (length ys) (drop (length xs - n) xs @ ys)"
    using True by (simp add: last_n_def)
  also have "drop (length xs - n) xs @ ys = drop (length xs - n) (xs @ ys)"
    by simp
  also have "drop (length ys) (drop (length xs - n) (xs @ ys)) =
             drop (length ys + (length xs - n)) (xs @ ys)"
    by (rule drop_drop)
  also have "length ys + (length xs - n) = length (xs @ ys) - n"
    using True by simp
  finally show ?thesis by (simp add: last_n_def)
next
  case False
  then show ?thesis by (simp add: last_n_all)
qed

lemma drop_one_tl: "drop (Suc 0) xs = tl xs"
  by (cases xs) simp_all

lemma push_frame_last_n:
  assumes "length buf \<le> nat m"
  shows "push_frame m f buf = last_n (nat m) (buf @ [f])"
proof (cases "int (Suc (length buf)) > m")
  case True
  with assms have "Suc (length buf) - nat m = Suc 0" by linarith
  then have "last_n (nat m) (buf @ [f]) = drop (Suc 0) (buf @ [f])"
    by (simp add: last_n_def)
  also have "\<dots> = tl (buf @ [f])" by (rule drop_one_tl)
  finally show ?thesis using True by (simp add: push_frame_def)
next
  case False
  then have "Suc (length buf) \<le> nat m" by linarith
  with False show ?thesis by (simp add: push_frame_def last_n_all)
qed

lemma push_all_last_n:
  "push_all m fs (last_n (nat m) xs) = last_n (nat m) (xs @ fs)"
proof (induction fs arbitrary: xs)
  case Nil
  then show ?case by simp
next
  case (Cons f fs)
  have "push_frame m f (last_n (nat m) xs) = last_n (nat m) (last_n (nat m) xs @ [f])"
    by (rule push_frame_last_n) (simp add: length_last_n)
  then have "push_frame m f (last_n (nat m) xs) = last_n (nat m) (xs @ [f])"
    by (simp only: last_n_append)
  then show ?case using Cons.IH [of "xs @ [f]"] by simp
qed

lemma video_buffer_fifo: "push_all m fs [] = drop (length fs - nat m) fs"
  using push_all_last_n [of m fs "[]"] by (simp add: last_n_def)

lemma video_buffer_bounded:
  "length buf \<le> nat m \<Longrightarrow> length (push_frame m f buf) \<le> nat m"
  by (simp add: push_frame_last_n length_last_n)

lemma read_frame_pushes:
  "cap v = Some True \<Longrightarrow>
   frame_buffer (fst (read_frame ok fit (Some f) v)) =
     push_frame (max_buffer_size v) (fit f) (frame_buffer v)"
  by (simp add: read_frame_def read_body_def)

lemma py_slice_last_n: "0 < m \<Longrightarrow> py_slice_from (- m) xs = last_n (nat m) xs"
proof -
  assume m: "0 < m"
  have "nat (max (- m + int (length xs)) 0) = length xs - nat m"
    using m by linarith
  with m show ?thesis by (simp add: py_slice_from_def Let_def last_n_def)
qed

lemma audio_callback_last_n:
  assumes "0 < a_max_buffer_size a"
  shows "audio_buffer (audio_callback c a) =
           last_n (nat (a_max_buffer_size a)) (audio_buffer a @ concat c)"
proof (cases "int (length (audio_buffer a @ concat c)) > a_max_buffer_size a")
  case True
  then show ?thesis using assms by (simp add: audio_callback_def Let_def py_slice_last_n)
next
  case False
  then have "length (audio_buffer a @ concat c) \<le> nat (a_max_buffer_size a)" by linarith
  from last_n_all [OF this] False show ?thesis by (simp add: audio_callback_def Let_def)
qed

lemma audio_callback_max [simp]: "a_max_buffer_size (audio_callback c a) = a_max_buffer_size a"
  by (simp add: audio_callback_def Let_def)

lemma feed_all_max [simp]: "a_max_buffer_size (feed_all cs a) = a_max_buffer_size a"
  by (induction cs arbitrary: a) simp_all

lemma audio_buffer_fifo:
  "0 < a_max_buffer_size a \<Longrightarrow> length (audio_buffer a) \<le> nat (a_max_buffer_size a) \<Longrightarrow>
   audio_buffer (feed_all cs a) =
     last_n (nat (a_max_buffer_size a)) (audio_buffer a @ concat (map concat cs))"
proof (induction cs arbitrary: a)
  case Nil
  then show ?case by (simp add: last_n_all)
next
  case (Cons c cs)
  let ?n = "nat (a_max_buffer_size a)"
  have b: "audio_buffer (audio_callback c a) = last_n ?n (audio_buffer a @ concat c)"
    using Cons.prems(1) by (rule audio_callback_last_n)
  have "audio_buffer (feed_all cs (audio_callback c a)) =
          last_n ?n (audio_buffer (audio_callback c a) @ concat (map concat cs))"
    using Cons.IH [of "audio_callback c a"] Cons.prems(1) by (simp add: b length_last_n)
  also have "\<dots> = last_n ?n ((audio_buffer a @ concat c) @ concat (map concat cs))"
    by (simp only: b last_n_append)
  finally show ?case by simp
qed

text \<open>
  Claim C2 at capacity 0 on the audio buffer: after three callbacks of one sample each
  the buffer holds all three samples, where the claim asks for the last 0 samples and a
  length of at most 0. The slice \<open>[-0:]\<close> is the whole list. The frame buffer of
  capacity 0 is empty after the same three pushes.
\<close>

theorem audio_buffer_zero_capacity_unbounded:
  "audio_buffer
     (feed_all [[[1]], [[2]], [[3]]] \<lparr>audio_buffer = [], queue = [], a_max_buffer_size = 0\<rparr>) =
   [1, 2, 3] \<and>
   push_all 0 [1, 2, 3 :: real] [] = []"
  by (simp add: audio_callback_def py_slice_from_def push_frame_def Let_def)

text \<open>
  Claim C9: \<open>save_alert_video\<close> and \<open>save_alert_audio\<close> return \<open>None\<close> exactly when
  their buffer is empty, and leave the processor, and so the buffer, as it was, also
  when writing the audio file fails.
\<close>

theorem evidence_export_frame:
  "(snd (save_alert_video video_dir stamp v aid) = None \<longleftrightarrow> frame_buffer v = []) \<and>
   fst (save_alert_video video_dir stamp v aid) = v \<and>
   (snd (save_alert_audio audio_dir stamp' write_fails a aid') = Inr None \<longleftrightarrow> audio_buffer a = []) \<and>
   fst (save_alert_audio audio_dir stamp' write_fails a aid') = a"
  by (simp add: save_alert_video_def save_alert_audio_def)

section \<open>Properties of the rounding\<close>

text \<open>
  Rounding to 24 or 53 bits leaves integers below \<open>2^24\<close> as they are and never takes a
  value from 32 or above to below 32, so both NumPy arithmetics are faithful in the sense
  above. The \<open>float32\<close> sum \<open>100 + (100 + 2^-17)\<close> is 200.
\<close>

lemma round_even_int [simp]: "round_even (of_int m) = m"
  by (simp add: round_even_def)

lemma round_even_ge_floor: "\<lfloor>x\<rfloor> \<le> round_even x"
  by (simp add: round_even_def)

lemma powr_neg_nat: "u \<le> 0 \<Longrightarrow> (2::real) powr of_int u = 1 / 2 ^ nat (- u)"
proof -
  assume "u \<le> 0"
  then have "0 \<le> - u" by linarith
  then have "real (nat (- u)) = of_int (- u)" by (rule of_nat_nat)
  then have "(of_int u :: real) = - real (nat (- u))" by (simp only: of_int_minus minus_minus)
  then have "(2::real) powr of_int u = 2 powr (- real (nat (- u)))" by (simp only:)
  also have "\<dots> = 1 / 2 powr real (nat (- u))" by (rule powr_minus_divide)
  also have "(2::real) powr real (nat (- u)) = 2 ^ nat (- u)" by (rule powr_realpow) simp
  finally show ?thesis .
qed

lemma fl_zero: "fl p 0 = 0"
  by (simp add: fl_def)

lemma fl_int:
  assumes "\<bar>k\<bar> < 2 ^ p"
  shows "fl p (of_int k) = of_int k"
proof (cases "k = 0")
  case True
  then show ?thesis by (simp add: fl_def)
next
  case False
  define u where "u = \<lfloor>log 2 \<bar>of_int k :: real\<bar>\<rfloor> - int p + 1"
  have k1: "1 \<le> \<bar>of_int k :: real\<bar>" using False by (simp flip: of_int_abs add: )
  have k2: "\<bar>of_int k :: real\<bar> < 2 ^ p"
  proof -
    have "(of_int \<bar>k\<bar> :: real) < of_int (2 ^ p)" using assms by (simp only: of_int_less_iff)
    then show ?thesis by simp
  qed
  have "log 2 \<bar>of_int k :: real\<bar> < real p"
    using k1 k2 by (simp add: log_less_iff powr_realpow)
  then have "\<lfloor>log 2 \<bar>of_int k :: real\<bar>\<rfloor> < int p" by (simp add: floor_less_iff)
  then have u: "u \<le> 0" by (simp add: u_def)
  define n where "n = nat (- u)"
  have pw: "(2::real) powr of_int u = 1 / 2 ^ n"
    using u by (simp add: powr_neg_nat n_def)
  have "of_int k / (2::real) powr of_int u = of_int (k * 2 ^ n)" by (simp add: pw)
  then have "round_even (of_int k / (2::real) powr of_int u) = k * 2 ^ n"
    by (simp only: round_even_int)
  then have "fl p (of_int k) = of_int (k * 2 ^ n) * (1 / 2 ^ n)"
    using False by (simp add: fl_def u_def [symmetric] pw)
  then show ?thesis by simp
qed

lemma fl_value_numeral:
  "(numeral n :: int) < 2 ^ p \<Longrightarrow> fl p (numeral n) = numeral n"
  using fl_int [of "numeral n" p] by simp

lemma fl_ge_pow2:
  assumes "0 < p" and "2 ^ e \<le> x"
  shows "2 ^ e \<le> fl p x"
proof -
  have "(0::real) < 2 ^ e" by simp
  with assms(2) have xpos: "0 < x" by linarith
  define e' where "e' = \<lfloor>log 2 \<bar>x\<bar>\<rfloor>"
  define u where "u = e' - int p + 1"
  have "real e \<le> log 2 x"
    using assms(2) xpos by (simp add: le_log_iff powr_realpow)
  then have ee: "int e \<le> e'" using xpos by (simp add: e'_def le_floor_iff)
  have "of_int e' \<le> log 2 x" using xpos by (simp add: e'_def)
  then have lo: "2 powr of_int e' \<le> x" using xpos by (simp add: le_log_iff)
  have upos: "0 < (2::real) powr of_int u" by simp
  have "(2::real) powr of_int (int p - 1) = 2 powr (of_int e' - of_int u)" by (simp add: u_def)
  also have "\<dots> = 2 powr of_int e' / 2 powr of_int u" by (rule powr_diff)
  also have "\<dots> \<le> x / 2 powr of_int u" using lo upos by (simp add: divide_right_mono)
  finally have y: "(2::real) powr of_int (int p - 1) \<le> x / 2 powr of_int u" .
  have pp: "(2::real) powr of_int (int p - 1) = 2 ^ (p - 1)"
  proof -
    have "of_int (int p - 1) = real (p - 1)" using assms(1) by (simp add: of_nat_diff)
    then have "(2::real) powr of_int (int p - 1) = 2 powr real (p - 1)" by (simp only:)
    also have "\<dots> = 2 ^ (p - 1)" by (rule powr_realpow) simp
    finally show ?thesis .
  qed
  then have "of_int (2 ^ (p - 1)) \<le> x / 2 powr of_int u" using y by simp
  then have "2 ^ (p - 1) \<le> \<lfloor>x / 2 powr of_int u\<rfloor>" by (simp only: le_floor_iff)
  then have "2 ^ (p - 1) \<le> round_even (x / 2 powr of_int u)"
    using round_even_ge_floor [of "x / 2 powr of_int u"] by linarith
  then have "of_int (2 ^ (p - 1)) \<le> (of_int (round_even (x / 2 powr of_int u)) :: real)"
    by (simp only: of_int_le_iff)
  then have "(2::real) ^ (p - 1) \<le> of_int (round_even (x / 2 powr of_int u))"
    by simp
  then have "(2::real) ^ (p - 1) * 2 powr of_int u \<le> fl p x"
    using xpos upos by (simp add: fl_def u_def e'_def)
  moreover have "(2::real) ^ (p - 1) * 2 powr of_int u = 2 powr of_int e'"
  proof -
    have "(2::real) ^ (p - 1) = 2 powr of_int (int p - 1)"
      by (simp only: pp)
    then have "(2::real) ^ (p - 1) * 2 powr of_int u = 2 powr (of_int (int p - 1) + of_int u)"
      by (simp only: powr_add)
    also have "\<dots> = 2 powr of_int e'" by (simp add: u_def)
    finally show ?thesis .
  qed
  moreover have "(2::real) ^ e \<le> 2 powr of_int e'"
  proof -
    have "(2::real) ^ e = 2 powr real e" by (simp add: powr_realpow)
    also have "\<dots> \<le> 2 powr of_int e'" using ee by (simp add: )
    finally show ?thesis .
  qed
  ultimately show ?thesis by linarith
qed

lemma fl_ge_32: "0 < p \<Longrightarrow> 32 \<le> x \<Longrightarrow> 32 \<le> fl p x"
  using fl_ge_pow2 [of p 5 x] by simp

lemma floor_log2:
  assumes "2 ^ e \<le> x" and "x < 2 ^ Suc e"
  shows "\<lfloor>log 2 x\<rfloor> = int e"
proof -
  have "(0::real) < 2 ^ e" by simp
  with assms(1) have xpos: "0 < x" by linarith
  have "real e \<le> log 2 x" using assms(1) xpos by (simp add: le_log_iff powr_realpow)
  moreover have "log 2 x < real (Suc e)"
  proof -
    have "(2::real) powr real (Suc e) = 2 ^ Suc e" by (rule powr_realpow) simp
    with assms(2) have "x < 2 powr real (Suc e)" by (simp only:)
    with xpos show ?thesis by (simp only: log_less_iff [of 2 x "real (Suc e)"]) 
  qed
  ultimately show ?thesis by (simp add: floor_eq_iff)
qed

lemma fl_tie: "fl 24 (100 + (100 + 1 / 131072)) = 200"
proof -
  let ?x = "100 + (100 + 1 / 131072) :: real"
  have e: "\<lfloor>log 2 \<bar>?x\<bar>\<rfloor> = 7"
    using floor_log2 [of 7 ?x] by simp
  have u: "(2::real) powr of_int (7 - int 24 + 1) = 1 / 65536"
    using powr_neg_nat [of "- 16"] by simp
  have q: "?x / (1 / 65536) = 13107200 + 1 / 2" by simp
  have f: "\<lfloor>13107200 + 1 / 2 :: real\<rfloor> = 13107200" by (simp add: floor_eq_iff)
  have r: "round_even (13107200 + 1 / 2) = 13107200"
    unfolding round_even_def f by simp
  have "fl 24 ?x = of_int (round_even (?x / (1 / 65536))) * (1 / 65536)"
    unfolding fl_def e u by simp
  also have "\<dots> = 200" unfolding q r by simp
  finally show ?thesis .
qed

lemma exact_on_ints_fl: "24 \<le> p \<Longrightarrow> exact_on_ints (fl p)"
  unfolding exact_on_ints_def
proof (intro allI impI)
  fix k :: int
  assume p: "24 \<le> p" and k: "\<bar>k\<bar> < 2 ^ 24"
  have "(2::int) ^ 24 \<le> 2 ^ p" by (rule power_increasing [OF p]) simp
  with k have "\<bar>k\<bar> < 2 ^ p" by (rule less_le_trans)
  then show "fl p (of_int k) = of_int k" by (rule fl_int)
qed

lemma exact_on_ints_Ints: "exact_on_ints r \<Longrightarrow> x \<in> \<int> \<Longrightarrow> \<bar>x\<bar> < 2 ^ 24 \<Longrightarrow> r x = x"
proof -
  assume r: "exact_on_ints r" and x: "x \<in> \<int>" and b: "\<bar>x\<bar> < 2 ^ 24"
  from x obtain k :: int where k: "x = of_int k" by (auto elim: Ints_cases)
  have "(of_int \<bar>k\<bar> :: real) < of_int (2 ^ 24)" using b k by simp
  then have "\<bar>k\<bar> < 2 ^ 24" by (simp only: of_int_less_iff)
  with r have "r (of_int k) = of_int k" by (simp add: exact_on_ints_def)
  with k show ?thesis by simp
qed

lemma faithful_numpy: "faithful numpy_arith"
  by (simp add: faithful_def numpy_arith_def exact_on_ints_fl fl_ge_32)

lemma faithful_legacy: "faithful legacy_arith"
  by (simp add: faithful_def legacy_arith_def exact_on_ints_fl fl_ge_32)

lemma faithful_exact: "faithful exact_arith"
  by (simp add: faithful_def exact_arith_def exact_on_ints_def)

lemma faithful_r32: "faithful ar \<Longrightarrow> x \<in> \<int> \<Longrightarrow> \<bar>x\<bar> < 2 ^ 24 \<Longrightarrow> r32 ar x = x"
  by (simp add: faithful_def exact_on_ints_Ints)

lemma faithful_rmix: "faithful ar \<Longrightarrow> x \<in> \<int> \<Longrightarrow> \<bar>x\<bar> < 2 ^ 24 \<Longrightarrow> rmix ar x = x"
  by (simp add: faithful_def exact_on_ints_Ints)

lemma faithful_r64: "faithful ar \<Longrightarrow> x \<in> \<int> \<Longrightarrow> \<bar>x\<bar> < 2 ^ 24 \<Longrightarrow> r64 ar x = x"
  by (simp add: faithful_def exact_on_ints_Ints)

lemma faithful_r64_ge: "faithful ar \<Longrightarrow> 32 \<le> x \<Longrightarrow> 32 \<le> r64 ar x"
  by (simp add: faithful_def)

section \<open>Properties of the tracker\<close>

lemma current_objects_unwatched:
  "\<forall>d \<in> set dets. det_class d \<notin> set watched_classes \<Longrightarrow> current_objects ar now dets cur = cur"
  by (induction dets arbitrary: cur) simp_all

lemma set_dict_set: "set (dict_set k v d) \<subseteq> insert (k, v) (set d)"
  by (induction k v d rule: dict_set.induct) (auto split: if_splits)

lemma current_objects_last_seen:
  "\<forall>p \<in> set cur. last_seen (snd p) = now \<Longrightarrow>
   \<forall>p \<in> set (current_objects ar now dets cur). last_seen (snd p) = now"
proof (induction dets arbitrary: cur)
  case Nil
  then show ?case by simp
next
  case (Cons d ds)
  show ?case
  proof (cases "det_class d \<in> set watched_classes")
    case True
    let ?v = "object_data ar now d"
    have "last_seen ?v = now" by (simp add: object_data_def)
    then have "\<forall>p \<in> set (dict_set (object_id ar d) ?v cur). last_seen (snd p) = now"
      using Cons.prems set_dict_set [of "object_id ar d" ?v cur] by auto
    from Cons.IH [OF this] True show ?thesis by simp
  next
    case False
    with Cons.IH [OF Cons.prems] show ?thesis by simp
  qed
qed

lemma find_missing_recent:
  "\<forall>p \<in> set tracked. now - last_seen (snd p) \<le> 3 \<Longrightarrow> find_missing now cur tracked = []"
  by (induction now cur tracked rule: find_missing.induct) auto

lemma update_within_grace:
  assumes "\<forall>p \<in> set (tracked_objects tr). now - last_seen (snd p) \<le> 3"
  shows "snd (update_object_tracking ar so now dets tr) = (False, [])"
  using find_missing_recent [OF assms]
  by (simp add: update_object_tracking_def Let_def)

lemma update_tracked:
  "tracked_objects (fst (update_object_tracking ar so now dets tr)) = current_objects ar now dets []"
  by (simp add: update_object_tracking_def Let_def)

lemma never_fires_within_grace:
  "\<forall>p \<in> set (tracked_objects tr). last_seen (snd p) = t \<Longrightarrow> gaps_within t (map fst ticks) \<Longrightarrow>
   \<forall>r \<in> set (run_ticks ar so ticks tr). r = (False, [])"
proof (induction ticks arbitrary: tr t)
  case Nil
  then show ?case by simp
next
  case (Cons tick ticks)
  obtain now dets where tick: "tick = (now, dets)" by (cases tick)
  obtain tr' r where u: "update_object_tracking ar so now dets tr = (tr', r)"
    by (cases "update_object_tracking ar so now dets tr")
  from Cons.prems tick have gap: "now - t \<le> 3" and rest: "gaps_within now (map fst ticks)"
    by simp_all
  have "\<forall>p \<in> set (tracked_objects tr). now - last_seen (snd p) \<le> 3"
    using Cons.prems(1) gap by simp
  from update_within_grace [OF this, of ar so dets] u have r: "r = (False, [])" by simp
  have "tracked_objects tr' = current_objects ar now dets []"
    using update_tracked [of ar so now dets tr] u by simp
  then have "\<forall>p \<in> set (tracked_objects tr'). last_seen (snd p) = now"
    using current_objects_last_seen [of "[]" now ar dets] by simp
  from Cons.IH [OF this rest] r show ?case by (simp add: tick u)
qed

text \<open>
  Claim C3 on the sample run: the cup is seen at the readings 0, 1 and 2 and is absent
  from reading 3 on. The first reading more than 3 seconds after its last sighting is 6.
  The tracker reports nothing at any of the eight ticks, for any rounding and any
  iteration order of sets.
\<close>

theorem absent_object_never_classified_missing:
  "run_ticks ar so cup_then_absent new_tracker = replicate 8 (False, [])"
  by (simp add: cup_then_absent_def new_tracker_def update_object_tracking_def Let_def
      cup_det_def laptop_det_def watched_classes_def object_id_def object_data_def
      numeral_eq_Suc)

lemma map_of_dict_set: "map_of (dict_set k v d) = (map_of d)(k \<mapsto> v)"
  by (induction k v d rule: dict_set.induct) (auto simp: fun_eq_iff)

lemma keys_dict_set: "set (map fst (dict_set k v d)) = insert k (set (map fst d))"
  by (induction k v d rule: dict_set.induct) auto

lemma distinct_dict_set: "distinct (map fst d) \<Longrightarrow> distinct (map fst (dict_set k v d))"
proof (induction k v d rule: dict_set.induct)
  case (1 k v)
  then show ?case by simp
next
  case (2 k v k' v' d)
  show ?case
  proof (cases "k' = k")
    case True
    with "2.prems" show ?thesis by simp
  next
    case False
    with "2.prems" have "distinct (map fst (dict_set k v d))" by (simp add: "2.IH")
    moreover have "k' \<notin> set (map fst (dict_set k v d))"
      using "2.prems" False by (simp only: keys_dict_set) auto
    ultimately show ?thesis using False by simp
  qed
qed

lemma current_objects_distinct:
  "distinct (map fst cur) \<Longrightarrow> distinct (map fst (current_objects ar now dets cur))"
  by (induction dets arbitrary: cur) (simp_all add: distinct_dict_set)

lemma find_snoc:
  "find P (xs @ [x]) = (case find P xs of None \<Rightarrow> (if P x then Some x else None) | Some y \<Rightarrow> Some y)"
  by (induction xs) simp_all

lemma current_objects_map:
  "map_of (current_objects ar now dets cur) k =
     (case find (\<lambda>d. det_class d \<in> set watched_classes \<and> object_id ar d = k) (rev dets) of
        None \<Rightarrow> map_of cur k
      | Some d \<Rightarrow> Some (object_data ar now d))"
proof (induction dets arbitrary: cur)
  case Nil
  then show ?case by simp
next
  case (Cons d ds)
  show ?case
  proof (cases "det_class d \<in> set watched_classes")
    case True
    then show ?thesis
      by (simp add: Cons.IH find_snoc map_of_dict_set split: option.splits)
  next
    case False
    then show ?thesis
      by (simp add: Cons.IH find_snoc split: option.splits)
  qed
qed

text \<open>
  Claim C10: after a tick whose detections contain no watched class the tracked set is
  empty, and the next tick, whatever it detects, returns \<open>(False, "")\<close> and stores its
  own detections as the tracked set: the keys are distinct, and under each key lies the
  entry, stamped with that tick's clock reading, of the last watched detection of that
  tick with that key, and nothing lies under any other key.
\<close>

theorem empty_tick_reseeds:
  assumes "\<forall>d \<in> set dets1. det_class d \<notin> set watched_classes"
  shows "tracked_objects (fst (update_object_tracking ar so t1 dets1 tr)) = [] \<and>
         update_object_tracking ar so' t2 dets2 (fst (update_object_tracking ar so t1 dets1 tr)) =
           (\<lparr>tracked_objects = current_objects ar t2 dets2 [], missing_objects = []\<rparr>,
            (False, [])) \<and>
         distinct (map fst (current_objects ar t2 dets2 [])) \<and>
         (\<forall>k. map_of (current_objects ar t2 dets2 []) k =
            (case find (\<lambda>d. det_class d \<in> set watched_classes \<and> object_id ar d = k)
                    (rev dets2) of
               None \<Rightarrow> None
             | Some d \<Rightarrow> Some (object_data ar t2 d)))"
proof (intro conjI allI)
  show e: "tracked_objects (fst (update_object_tracking ar so t1 dets1 tr)) = []"
    using current_objects_unwatched [OF assms] by (simp add: update_tracked)
  show "update_object_tracking ar so' t2 dets2 (fst (update_object_tracking ar so t1 dets1 tr)) =
          (\<lparr>tracked_objects = current_objects ar t2 dets2 [], missing_objects = []\<rparr>,
           (False, []))"
    using e by (simp add: update_object_tracking_def [of ar so' t2] Let_def)
  show "distinct (map fst (current_objects ar t2 dets2 []))"
    by (rule current_objects_distinct) simp
  show "map_of (current_objects ar t2 dets2 []) k =
          (case find (\<lambda>d. det_class d \<in> set watched_classes \<and> object_id ar d = k)
                  (rev dets2) of
             None \<Rightarrow> None
           | Some d \<Rightarrow> Some (object_data ar t2 d))" for k
    by (simp add: current_objects_map split: option.splits)
qed

lemma bottle_entry:
  "current_objects numpy_arith 20 [bottle_det, person_det] [] =
     [((''bottle'', 3, 5, 10),
       \<lparr>obj_class = ''bottle'', obj_position = (60, 100), obj_size = 5000, last_seen = 20,
          box = (35, 50, 85, 150)\<rparr>)]"
  by (simp add: bottle_det_def person_det_def watched_classes_def object_id_def object_data_def
      box_center_def box_area_def py_int_def numpy_arith_def fl_value_numeral)

theorem empty_tick_reseeds_witness:
  "tracked_objects
     (fst (update_object_tracking numpy_arith (\<lambda>S. sorted_list_of_set S) 10 [person_det]
             cup_tracker)) = [] \<and>
   update_object_tracking numpy_arith (\<lambda>S. sorted_list_of_set S) 20 [bottle_det, person_det]
     (fst (update_object_tracking numpy_arith (\<lambda>S. sorted_list_of_set S) 10 [person_det]
             cup_tracker)) =
     (\<lparr>tracked_objects =
         [((''bottle'', 3, 5, 10),
           \<lparr>obj_class = ''bottle'', obj_position = (60, 100), obj_size = 5000, last_seen = 20,
              box = (35, 50, 85, 150)\<rparr>)],
       missing_objects = []\<rparr>, (False, []))"
proof -
  have h: "\<forall>d \<in> set [person_det]. det_class d \<notin> set watched_classes"
    by (simp add: person_det_def watched_classes_def)
  show ?thesis
    using empty_tick_reseeds [OF h, of numpy_arith "\<lambda>S. sorted_list_of_set S" 10 cup_tracker
        "\<lambda>S. sorted_list_of_set S" 20 "[bottle_det, person_det]"]
    by (simp only: bottle_entry)
qed

section \<open>Properties of the contact heuristic\<close>

lemma dless_dmin: "dless (dmin m d) t \<longleftrightarrow> dless m t \<or> d < t"
  by (cases m) auto

lemma inner_min_less:
  "dless (inner_min ar p1 q js m) t \<longleftrightarrow>
     dless m t \<or> (\<exists>j \<in> set js. 0.5 \<le> kconf (q j) \<and> euclid ar p1 (q j) < t)"
  by (induction js arbitrary: m) (auto simp: dless_dmin not_less)

lemma outer_min_less:
  "dless (outer_min ar p q is m) t \<longleftrightarrow>
     dless m t \<or>
     (\<exists>i \<in> set is. 0.5 \<le> kconf (p i) \<and>
        (\<exists>j \<in> set key_points. 0.5 \<le> kconf (q j) \<and> euclid ar (p i) (q j) < t))"
  by (induction "is" arbitrary: m) (auto simp: inner_min_less not_less)

lemma minimum_distance_less:
  "dless (calculate_minimum_distance ar p q) t \<longleftrightarrow>
     (\<exists>i \<in> {5, 6, 11, 12}. \<exists>j \<in> {5, 6, 11, 12}.
        0.5 \<le> kconf (p i) \<and> 0.5 \<le> kconf (q j) \<and> euclid ar (p i) (q j) < t)"
  unfolding calculate_minimum_distance_def outer_min_less
  by (simp add: key_points_def)

lemma finite_landmark_distances: "finite (landmark_distances ar p q)"
proof -
  have "landmark_distances ar p q \<subseteq>
          (\<lambda>(a, b). euclid ar (p a) (q b)) ` ({5, 6, 11, 12} \<times> {5, 6, 11, 12})"
    by (auto simp: landmark_distances_def)
  then show ?thesis by (rule finite_subset) simp
qed

lemma close_spec_iff:
  "close_spec ar p q \<longleftrightarrow>
     (\<exists>i \<in> {5, 6, 11, 12}. \<exists>j \<in> {5, 6, 11, 12}.
        0.5 \<le> kconf (p i) \<and> 0.5 \<le> kconf (q j) \<and> euclid ar (p i) (q j) < 30)"
proof -
  have "close_spec ar p q \<longleftrightarrow> (\<exists>d \<in> landmark_distances ar p q. d < 30)"
    using Min_less_iff [OF finite_landmark_distances, of ar p q 30]
    by (auto simp: close_spec_def)
  also have "\<dots> \<longleftrightarrow> (\<exists>i \<in> {5, 6, 11, 12}. \<exists>j \<in> {5, 6, 11, 12}.
        0.5 \<le> kconf (p i) \<and> 0.5 \<le> kconf (q j) \<and> euclid ar (p i) (q j) < 30)"
    unfolding landmark_distances_def by blast
  finally show ?thesis .
qed

lemma direction_trunk: "direction ar p = trunk ar p"
  by (simp add: direction_def trunk_def shoulders_mid_def hips_mid_def midpoint_of_def)

lemma vnorm_vlength: "vnorm ar v = vlength ar v"
  by (simp add: vnorm_def vlength_def)

lemma are_facing_spec: "are_facing_each_other ar p q \<longleftrightarrow> facing_spec ar p q"
  by (auto simp: are_facing_each_other_def facing_spec_def Let_def direction_trunk vnorm_vlength
      dot_def normalized_def)

lemma body_loop_iff:
  "body_loop ar hand other bs \<longleftrightarrow>
     (\<exists>b \<in> set bs. 0.5 \<le> kconf (other b) \<and> euclid ar hand (other b) < 20)"
  by (induction bs) (auto simp: not_less)

lemma hand_loop_iff:
  "hand_loop ar owner other hs \<longleftrightarrow>
     (\<exists>h \<in> set hs. 0.5 \<le> kconf (owner h) \<and> body_loop ar (owner h) other body_indices)"
  by (induction hs) (auto simp: not_less)

lemma hand_loop_spec: "hand_loop ar p q hand_indices \<longleftrightarrow> wrist_spec ar p q"
  unfolding hand_loop_iff body_loop_iff wrist_spec_def
  by (simp add: hand_indices_def body_indices_def)

lemma detect_hand_contact_spec:
  "detect_hand_contact ar p q \<longleftrightarrow> wrist_spec ar p q \<or> wrist_spec ar q p"
  by (simp add: detect_hand_contact_def hand_loop_spec)

lemma contact_cond_spec:
  "contact_cond ar p q \<longleftrightarrow>
     close_spec ar p q \<and> facing_spec ar p q \<and> (wrist_spec ar p q \<or> wrist_spec ar q p)"
  by (simp add: contact_cond_def minimum_distance_less close_spec_iff are_facing_spec
      detect_hand_contact_spec)

lemma pair_inner_iff:
  "pair_inner ar poses i js \<longleftrightarrow> (\<exists>j \<in> set js. contact_cond ar (poses ! i) (poses ! j))"
  by (induction js) (auto simp: contact_cond_def)

lemma pair_outer_iff:
  "pair_outer ar poses is =
     (if \<exists>i \<in> set is. \<exists>j \<in> {i + 1 ..< length poses}. contact_cond ar (poses ! i) (poses ! j)
      then (True, contact_message) else (False, []))"
  by (induction "is") (auto simp: pair_inner_iff)

lemma pairs_upt:
  "(\<exists>i \<in> set [0 ..< n]. \<exists>j \<in> {i + 1 ..< n}. C i j) \<longleftrightarrow> (\<exists>i j. i < j \<and> j < n \<and> C i j)"
proof
  assume "\<exists>i \<in> set [0 ..< n]. \<exists>j \<in> {i + 1 ..< n}. C i j"
  then obtain i j where "i + 1 \<le> j" "j < n" "C i j" by auto
  then have "i < j \<and> j < n \<and> C i j" by simp
  then show "\<exists>i j. i < j \<and> j < n \<and> C i j" by blast
next
  assume "\<exists>i j. i < j \<and> j < n \<and> C i j"
  then obtain i j where ij: "i < j" "j < n" "C i j" by blast
  then have "i \<in> set [0 ..< n]" "j \<in> {i + 1 ..< n}" by simp_all
  with ij(3) show "\<exists>i \<in> set [0 ..< n]. \<exists>j \<in> {i + 1 ..< n}. C i j" by blast
qed

lemma check_pairs:
  "check_inappropriate_contact ar poses =
     (if \<exists>i j. i < j \<and> j < length poses \<and> contact_cond ar (poses ! i) (poses ! j)
      then (True, contact_message) else (False, []))"
proof (cases "length poses < 2")
  case True
  have "\<not> (\<exists>i j. i < j \<and> j < length poses \<and> contact_cond ar (poses ! i) (poses ! j))"
  proof
    assume "\<exists>i j. i < j \<and> j < length poses \<and> contact_cond ar (poses ! i) (poses ! j)"
    then obtain i j where "i < j" "j < length poses" by blast
    with True show False by linarith
  qed
  with True show ?thesis by (simp only: check_inappropriate_contact_def if_True if_False)
next
  case False
  have "check_inappropriate_contact ar poses = pair_outer ar poses [0 ..< length poses]"
    using False by (simp only: check_inappropriate_contact_def if_False)
  also have "\<dots> =
     (if \<exists>i \<in> set [0 ..< length poses]. \<exists>j \<in> {i + 1 ..< length poses}.
           contact_cond ar (poses ! i) (poses ! j)
      then (True, contact_message) else (False, []))"
    by (rule pair_outer_iff)
  also have "\<dots> =
     (if \<exists>i j. i < j \<and> j < length poses \<and> contact_cond ar (poses ! i) (poses ! j)
      then (True, contact_message) else (False, []))"
    by (simp only: pairs_upt)
  finally show ?thesis .
qed

lemma pairs_of_two:
  "(\<exists>i j. i < j \<and> j < length [p, q] \<and> contact_cond ar ([p, q] ! i) ([p, q] ! j)) \<longleftrightarrow>
   contact_cond ar p q"
proof
  assume "\<exists>i j. i < j \<and> j < length [p, q] \<and> contact_cond ar ([p, q] ! i) ([p, q] ! j)"
  then obtain i j where ij: "i < j" "j < length [p, q]" "contact_cond ar ([p, q] ! i) ([p, q] ! j)"
    by blast
  from ij(1,2) have "j = 1" "i = 0" by simp_all
  with ij(3) show "contact_cond ar p q" by simp
next
  assume c: "contact_cond ar p q"
  have "(0::nat) < 1 \<and> (1::nat) < length [p, q] \<and> contact_cond ar ([p, q] ! 0) ([p, q] ! 1)"
    using c by simp
  then show "\<exists>i j. i < j \<and> j < length [p, q] \<and> contact_cond ar ([p, q] ! i) ([p, q] ! j)"
    by (intro exI)
qed

lemma check_two:
  "check_inappropriate_contact ar [p, q] =
     (if contact_cond ar p q then (True, contact_message) else (False, []))"
  by (simp only: check_pairs pairs_of_two)

lemma contact_spec_pairs:
  "contact_spec ar poses \<longleftrightarrow>
     (\<exists>i j. i < j \<and> j < length poses \<and> contact_cond ar (poses ! i) (poses ! j))"
  by (simp add: contact_spec_def contact_cond_spec)

text \<open>
  The sample scenes under any faithful arithmetic, and the scene on which \<open>float32\<close>
  rounding decides.
\<close>

lemma sqrt_0_value: "sqrt 0 = 0"
  by simp

lemma sqrt_100: "sqrt 100 = 10"
  by (rule real_sqrt_unique) simp_all

lemma sqrt_3600: "sqrt 3600 = 60"
  by (rule real_sqrt_unique) simp_all

lemma sqrt_90000: "sqrt 90000 = 300"
  by (rule real_sqrt_unique) simp_all

lemma sqrt_ge_32: "1024 \<le> x \<Longrightarrow> 32 \<le> sqrt x"
  by (rule real_le_rsqrt) simp

lemma far_not_less:
  "faithful ar \<Longrightarrow> 1024 \<le> x \<Longrightarrow> t \<le> 32 \<Longrightarrow> (r64 ar (sqrt x) < t) = False"
  using faithful_r64_ge [of ar "sqrt x"] sqrt_ge_32 [of x] by simp

lemmas evaluate_rounding = faithful_r32 faithful_rmix faithful_r64 far_not_less

lemma scene_a_rows:
  "scene_a w 5 = \<lparr>kx = 95, ky = 100, kconf = 1\<rparr>"
  "scene_a w 6 = \<lparr>kx = 105, ky = 100, kconf = 1\<rparr>"
  "scene_a w 9 = \<lparr>kx = fst w, ky = snd w, kconf = 1\<rparr>"
  "scene_a w 10 = \<lparr>kx = 60, ky = 130, kconf = 1\<rparr>"
  "scene_a w 11 = \<lparr>kx = 95, ky = 160, kconf = 1\<rparr>"
  "scene_a w 12 = \<lparr>kx = 105, ky = 160, kconf = 1\<rparr>"
  by (simp_all add: scene_a_def person_of_def)

lemma scene_b_rows:
  "scene_b 5 = \<lparr>kx = 105, ky = 100, kconf = 1\<rparr>"
  "scene_b 6 = \<lparr>kx = 115, ky = 100, kconf = 1\<rparr>"
  "scene_b 9 = \<lparr>kx = 150, ky = 70, kconf = 1\<rparr>"
  "scene_b 10 = \<lparr>kx = 160, ky = 70, kconf = 1\<rparr>"
  "scene_b 11 = \<lparr>kx = 105, ky = 40, kconf = 1\<rparr>"
  "scene_b 12 = \<lparr>kx = 115, ky = 40, kconf = 1\<rparr>"
  by (simp_all add: scene_b_def person_of_def)

lemma wide_a_rows:
  "wide_a 5 = \<lparr>kx = 0, ky = 500, kconf = 1\<rparr>"
  "wide_a 6 = \<lparr>kx = 200, ky = 500, kconf = 1\<rparr>"
  "wide_a 9 = \<lparr>kx = 116, ky = 608, kconf = 1\<rparr>"
  "wide_a 10 = \<lparr>kx = 260, ky = 800, kconf = 1\<rparr>"
  "wide_a 11 = \<lparr>kx = 0, ky = 800, kconf = 1\<rparr>"
  "wide_a 12 = \<lparr>kx = 200, ky = 800, kconf = 1\<rparr>"
  by (simp_all add: wide_a_def person_of_def)

lemma wide_b_rows:
  "wide_b 5 = \<lparr>kx = 110, ky = 400, kconf = 1\<rparr>"
  "wide_b 6 = \<lparr>kx = 110, ky = 600, kconf = 1\<rparr>"
  "wide_b 9 = \<lparr>kx = 400, ky = 300, kconf = 1\<rparr>"
  "wide_b 10 = \<lparr>kx = 400, ky = 700, kconf = 1\<rparr>"
  "wide_b 11 = \<lparr>kx = 110, ky = 100, kconf = 1\<rparr>"
  "wide_b 12 = \<lparr>kx = 110, ky = 300, kconf = 1\<rparr>"
  by (simp_all add: wide_b_def person_of_def)

lemma tie_b_rows:
  "tie_b 5 = \<lparr>kx = 105, ky = 100, kconf = 1\<rparr>"
  "tie_b 6 = \<lparr>kx = 115, ky = 100 + 1 / 131072, kconf = 1\<rparr>"
  "tie_b 11 = \<lparr>kx = 100, ky = 100, kconf = 1\<rparr>"
  "tie_b 12 = \<lparr>kx = 120, ky = 100, kconf = 1\<rparr>"
  by (simp_all add: tie_b_def person_of_def)

lemma scene_near_close:
  assumes "faithful ar"
  shows "close_spec ar (scene_a w) scene_b"
proof -
  have "euclid ar (scene_a w 6) (scene_b 5) < 30"
    using assms by (simp add: euclid_def scene_a_rows scene_b_rows evaluate_rounding)
  moreover have "0.5 \<le> kconf (scene_a w 6)" "0.5 \<le> kconf (scene_b 5)"
    by (simp_all add: scene_a_rows scene_b_rows)
  ultimately show ?thesis unfolding close_spec_iff by blast
qed

lemma scene_facing:
  assumes "faithful ar"
  shows "facing_spec ar (scene_a w) scene_b"
proof -
  have a: "trunk ar (scene_a w) = (0, - 60)"
    using assms by (simp add: trunk_def midpoint_of_def scene_a_rows evaluate_rounding)
  have b: "trunk ar scene_b = (0, 60)"
    using assms by (simp add: trunk_def midpoint_of_def scene_b_rows evaluate_rounding)
  have la: "vlength ar (0, - 60) = 60" and lb: "vlength ar (0, 60) = 60"
    using assms by (simp_all add: vlength_def evaluate_rounding sqrt_3600)
  show ?thesis
    using assms
    by (simp add: facing_spec_def a b la lb normalized_def dot_def evaluate_rounding)
qed

lemma scene_near_wrist:
  assumes "faithful ar"
  shows "wrist_spec ar (scene_a (121, 92)) scene_b"
proof -
  have "euclid ar (scene_a (121, 92) 9) (scene_b 6) < 20"
    using assms by (simp add: euclid_def scene_a_rows scene_b_rows evaluate_rounding sqrt_100)
  moreover have "0.5 \<le> kconf (scene_a (121, 92) 9)" "0.5 \<le> kconf (scene_b 6)"
    by (simp_all add: scene_a_rows scene_b_rows)
  ultimately show ?thesis unfolding wrist_spec_def by blast
qed

lemma scene_far_wrists:
  assumes "faithful ar"
  shows "\<not> wrist_spec ar (scene_a (145, 60)) scene_b"
    and "\<not> wrist_spec ar scene_b (scene_a (145, 60))"
  using assms
  by (simp_all add: wrist_spec_def euclid_def scene_a_rows scene_b_rows evaluate_rounding)

lemma scene_near_contact: "faithful ar \<Longrightarrow> contact_cond ar (scene_a (121, 92)) scene_b"
  by (simp add: contact_cond_spec scene_near_close scene_facing scene_near_wrist)

lemma scene_far_no_contact: "faithful ar \<Longrightarrow> \<not> contact_cond ar (scene_a (145, 60)) scene_b"
  by (simp add: contact_cond_spec scene_far_wrists)

lemma scene_wide_not_close:
  assumes "faithful ar"
  shows "\<not> close_spec ar wide_a wide_b"
  using assms
  by (simp add: close_spec_iff euclid_def wide_a_rows wide_b_rows evaluate_rounding)

lemma wide_as_described:
  "shoulders_mid exact_arith wide_a = (100, 500) \<and> shoulders_mid exact_arith wide_b = (110, 500) \<and>
   direction exact_arith wide_a = (0, - 300) \<and> direction exact_arith wide_b = (0, 300) \<and>
   euclid exact_arith (wide_a 9) (wide_b 6) = 10"
  by (simp add: shoulders_mid_def hips_mid_def direction_def euclid_def wide_a_rows wide_b_rows
      exact_arith_def sqrt_100)

lemma tie_trunk_rounded: "trunk numpy_arith tie_b = (0, 0)"
proof -
  have s: "r32 numpy_arith (ky (tie_b 5) + ky (tie_b 6)) = 200"
    by (simp only: tie_b_rows keypoint.select_convs numpy_arith_def arith.select_convs fl_tie)
  have m: "midpoint_of numpy_arith (tie_b 5) (tie_b 6) = (110, 100)"
    unfolding midpoint_of_def s
    by (simp add: tie_b_rows numpy_arith_def fl_value_numeral)
  have h: "midpoint_of numpy_arith (tie_b 11) (tie_b 12) = (110, 100)"
    by (simp add: midpoint_of_def tie_b_rows numpy_arith_def fl_value_numeral)
  show ?thesis
    unfolding trunk_def m h by (simp add: numpy_arith_def fl_zero)
qed

lemma tie_not_facing_rounded: "\<not> facing_spec numpy_arith p tie_b"
proof -
  have "vlength numpy_arith (0, 0) = 0"
    by (simp add: vlength_def numpy_arith_def fl_zero)
  then show ?thesis by (simp add: facing_spec_def tie_trunk_rounded)
qed

lemma vlength_exact_vertical: "vlength exact_arith (0, y) = \<bar>y\<bar>"
  by (simp add: vlength_def exact_arith_def)

lemma tie_contact_exact: "contact_spec exact_arith scene_tie"
proof -
  have a: "trunk exact_arith (scene_a (111, 92)) = (0, - 60)"
    by (simp add: trunk_def midpoint_of_def scene_a_rows exact_arith_def)
  have b: "trunk exact_arith tie_b = (0, 1 / 262144)"
    by (simp add: trunk_def midpoint_of_def tie_b_rows exact_arith_def)
  have f: "facing_spec exact_arith (scene_a (111, 92)) tie_b"
    unfolding facing_spec_def a b vlength_exact_vertical normalized_def dot_def
    by (simp add: exact_arith_def)
  have "euclid exact_arith (scene_a (111, 92) 6) (tie_b 5) < 30"
    by (simp add: euclid_def scene_a_rows tie_b_rows exact_arith_def)
  moreover have "0.5 \<le> kconf (scene_a (111, 92) 6)" "0.5 \<le> kconf (tie_b 5)"
    by (simp_all add: scene_a_rows tie_b_rows)
  ultimately have c: "close_spec exact_arith (scene_a (111, 92)) tie_b"
    unfolding close_spec_iff by blast
  have "euclid exact_arith (scene_a (111, 92) 9) (tie_b 5) < 20"
    by (simp add: euclid_def scene_a_rows tie_b_rows exact_arith_def sqrt_100)
  moreover have "0.5 \<le> kconf (scene_a (111, 92) 9)" "0.5 \<le> kconf (tie_b 5)"
    by (simp_all add: scene_a_rows tie_b_rows)
  ultimately have w: "wrist_spec exact_arith (scene_a (111, 92)) tie_b"
    unfolding wrist_spec_def by blast
  have "contact_cond exact_arith (scene_a (111, 92)) tie_b"
    using c f w by (simp add: contact_cond_spec)
  then show ?thesis
    by (simp only: contact_spec_pairs scene_tie_def pairs_of_two)
qed

text \<open>
  Claim C7, as stated, fails twice. The scene of two broad persons has every property
  that the description of the synthetic scene names (shoulder midpoints 10 pixels
  apart, opposite trunk vectors, a wrist 10 pixels from the other's shoulder), and the
  heuristic returns \<open>(False, "")\<close> on it, with or without rounding. The scene of the
  tie meets all three conditions in exact arithmetic, and the heuristic returns
  \<open>(False, "")\<close> on it, because \<open>float32\<close> rounds the trunk vector to (0, 0).
\<close>

theorem section8_scene_without_contact:
  "shoulders_mid exact_arith wide_a = (100, 500) \<and>
   shoulders_mid exact_arith wide_b = (110, 500) \<and>
   direction exact_arith wide_a = (0, - 300) \<and> direction exact_arith wide_b = (0, 300) \<and>
   euclid exact_arith (wide_a 9) (wide_b 6) = 10 \<and>
   check_inappropriate_contact exact_arith scene_wide = (False, []) \<and>
   check_inappropriate_contact numpy_arith scene_wide = (False, []) \<and>
   check_inappropriate_contact legacy_arith scene_wide = (False, []) \<and>
   contact_spec exact_arith scene_tie \<and>
   check_inappropriate_contact numpy_arith scene_tie = (False, [])"
proof -
  have w: "check_inappropriate_contact ar scene_wide = (False, [])" if "faithful ar" for ar
    using scene_wide_not_close [OF that]
    by (simp add: scene_wide_def check_two contact_cond_spec)
  have t: "check_inappropriate_contact numpy_arith scene_tie = (False, [])"
    by (simp add: scene_tie_def check_two contact_cond_spec tie_not_facing_rounded)
  show ?thesis
    using wide_as_described w [OF faithful_exact] w [OF faithful_numpy] w [OF faithful_legacy]
      tie_contact_exact t
    by simp
qed

text \<open>
  Claim C7, amended: \<open>check_inappropriate_contact\<close> returns \<open>True\<close> with a non-empty
  description exactly when some pair of persons \<open>i < j\<close> meets the three conditions as
  the program's floating-point arithmetic evaluates them: the least computed distance
  between their shoulder and hip landmarks of confidence at least 0.5 is below 30, both
  computed trunk vectors have a positive computed length and their computed unit vectors
  a negative computed dot product, and a wrist of one is at a computed distance below 20
  from a shoulder or hip of the other, both of confidence at least 0.5; otherwise it
  returns \<open>(False, "")\<close>. Under every faithful arithmetic the synthetic scene given
  above by its coordinates yields \<open>True\<close>, and the same scene with the wrist 50 pixels
  from the shoulder yields \<open>False\<close>.
\<close>

theorem contact_heuristic_correct:
  "check_inappropriate_contact ar poses =
     (if contact_spec ar poses then (True, contact_message) else (False, [])) \<and>
   contact_message \<noteq> [] \<and>
   (faithful ar' \<longrightarrow>
      check_inappropriate_contact ar' scene_near = (True, contact_message) \<and>
      check_inappropriate_contact ar' scene_far = (False, []))"
proof (intro conjI impI)
  show "check_inappropriate_contact ar poses =
          (if contact_spec ar poses then (True, contact_message) else (False, []))"
    by (simp only: check_pairs contact_spec_pairs)
  show "contact_message \<noteq> []" by (simp add: contact_message_def)
next
  assume f: "faithful ar'"
  show "check_inappropriate_contact ar' scene_near = (True, contact_message)"
    using scene_near_contact [OF f] by (simp add: scene_near_def check_two)
  show "check_inappropriate_contact ar' scene_far = (False, [])"
    using scene_far_no_contact [OF f] by (simp add: scene_far_def check_two)
qed

theorem contact_heuristic_witness:
  "faithful numpy_arith \<and>
   check_inappropriate_contact numpy_arith scene_near = (True, contact_message) \<and>
   check_inappropriate_contact numpy_arith scene_far = (False, []) \<and>
   contact_spec numpy_arith scene_near \<and> \<not> contact_spec numpy_arith scene_far"
proof -
  have n: "check_inappropriate_contact numpy_arith scene_near = (True, contact_message)"
    and f: "check_inappropriate_contact numpy_arith scene_far = (False, [])"
    using contact_heuristic_correct [of numpy_arith scene_near numpy_arith] faithful_numpy
    by blast+
  from contact_heuristic_correct [of numpy_arith scene_near numpy_arith] n
  have "contact_spec numpy_arith scene_near" by (simp split: if_splits)
  moreover from contact_heuristic_correct [of numpy_arith scene_far numpy_arith] f
  have "\<not> contact_spec numpy_arith scene_far" by (simp split: if_splits)
  ultimately show ?thesis using n f faithful_numpy by simp
qed

end
